theory Spec2Isabelle
  imports Complex_Main "HOL-Library.AList"
begin

section \<open>Conventions of the embedding\<close>

text \<open>
  The decision core of the exploratory-testing agent is embedded function by function.
  Python floats are modelled by the reals, so rounding, infinities and NaN are outside
  the model. Python dictionaries are association lists read with \<open>map_of\<close> and written
  with \<open>AList.update\<close> (an existing key keeps its position, a new key is appended), which
  is the insertion order a Python dictionary iterates in. Exceptions are values of the
  type \<open>error\<close>, returned as \<open>Inl\<close>. Human-readable message strings built with f-strings
  are represented by one constructor per message template.
\<close>

datatype error =
    ValidationError
  | RecursionError
  | ZeroDivisionError
  | IndexError
  | ComplexResult

text \<open>\<open>d.get(k, default)\<close> of a Python dictionary.\<close>

definition dict_get :: "('k \<times> 'a) list \<Rightarrow> 'k \<Rightarrow> 'a \<Rightarrow> 'a" where
  "dict_get d k dflt = (case map_of d k of None \<Rightarrow> dflt | Some v \<Rightarrow> v)"

text \<open>The slice \<open>xs[-n:]\<close> for \<open>n \<ge> 0\<close>; \<open>xs[-0:]\<close> is the whole list.\<close>

definition py_last_n :: "nat \<Rightarrow> 'a list \<Rightarrow> 'a list" where
  "py_last_n n xs = (if n = 0 then xs else drop (length xs - n) xs)"

section \<open>Data model (schemas)\<close>

text \<open>
  Modelled from the spec: the module \<open>schemas/anomaly_report.py\<close> is not among the
  sources; the severity and category enumerations and the fields of an anomaly report
  are taken from section 3 of the specification and from the constructor calls in
  \<open>nodes/anomaly_detector.py\<close>. The free-text fields \<open>description\<close> and \<open>evidence\<close>
  are read by no decision of the core and are left out.
\<close>

datatype AnomalySeverity = LOW | MEDIUM | HIGH

datatype AnomalyCategory = INVARIANT_VIOLATION | REGRESSION | INSTABILITY

text \<open>The \<open>.value\<close> of a severity, the string handed to the risk policy.\<close>

fun severity_value :: "AnomalySeverity \<Rightarrow> string" where
  "severity_value LOW = ''LOW''"
| "severity_value MEDIUM = ''MEDIUM''"
| "severity_value HIGH = ''HIGH''"

record AnomalyReport =
  severity :: AnomalySeverity
  category :: AnomalyCategory
  anomaly_action_id :: "string option"

datatype ControlDecision = CONTINUE | DEEP_TEST | TERMINATE

record 'v ActionContract =
  action_id :: string
  parameters :: "(string \<times> 'v) list"

text \<open>
  The reasons returned by \<open>should_terminate\<close> and \<open>should_deep_test\<close>, and the
  \<open>reasoning\<close> texts written into the decision; every constructor stands for one
  message template of the source and carries the values interpolated into it.
\<close>

datatype terminate_reason =
    No_available_actions_remaining
  | Maximum_steps_reached int
  | Repeated_high_severity_anomalies nat
  | Three_consecutive_high_severity
  | Excessive_anomaly_rate
  | No_terminate_reason

datatype deep_test_reason =
    Medium_severity_anomaly_detected
  | Baseline_deviation_detected
  | High_risk_action_detected real
  | No_deep_test_reason

datatype reasoning_text =
    Reasoning_TERMINATE terminate_reason
  | Reasoning_DEEP_TEST deep_test_reason
  | Reasoning_CONTINUE
  | Reasoning_selecting string nat real
  | Reasoning_no_valid_actions

record 'v UIState =
  available_actions :: "string list"
  observation :: "(string \<times> 'v) list"
  page_url :: "string option"
  page_title :: "string option"

text \<open>
  A stored baseline is a dictionary read with \<open>data.get("mean", 0.0)\<close>,
  \<open>data.get("std_dev", 0.0)\<close> and \<open>data.get("count", 0)\<close>: each of the three keys may
  be missing.
\<close>

record BaselineDict =
  dict_mean :: "real option"
  dict_std_dev :: "real option"
  dict_count :: "int option"

record Knowledge =
  baselines :: "(string \<times> BaselineDict) list"
  risk_scores :: "(string \<times> real) list"

record 'v Decision =
  next_action :: "'v ActionContract option"
  control :: ControlDecision
  reasoning :: "reasoning_text option"

record 'v ExecutionContext =
  step_count :: int
  max_steps :: int
  action_history :: "string list"
  previous_state :: "(string \<times> 'v) list option"

record 'v AgentState =
  ui_state :: "'v UIState"
  execution_context :: "'v ExecutionContext"
  knowledge :: Knowledge
  decision :: "'v Decision"
  anomalies :: "AnomalyReport list"

section \<open>Control router (nodes/router.py)\<close>

definition should_terminate :: "'v AgentState \<Rightarrow> bool \<times> terminate_reason" where
  "should_terminate state =
     (if available_actions (ui_state state) = [] then (True, No_available_actions_remaining)
      else if step_count (execution_context state) \<ge> max_steps (execution_context state)
        then (True, Maximum_steps_reached (max_steps (execution_context state)))
      else
        let recent_anomalies =
              (if length (anomalies state) \<ge> 5 then py_last_n 5 (anomalies state)
               else anomalies state);
            high_severity_count = length (filter (\<lambda>a. severity a = HIGH) recent_anomalies)
        in if high_severity_count \<ge> 3
             then (True, Repeated_high_severity_anomalies high_severity_count)
           else
             let last_3_anomalies =
                   (if length (anomalies state) \<ge> 3 then py_last_n 3 (anomalies state) else [])
             in if length last_3_anomalies = 3
                   \<and> list_all (\<lambda>a. severity a = HIGH) last_3_anomalies
                  then (True, Three_consecutive_high_severity)
                else if length (anomalies state) > 20
                   \<and> real (length (filter (\<lambda>a. severity a = HIGH) (anomalies state)))
                       / real (length (anomalies state)) > 0.5
                  then (True, Excessive_anomaly_rate)
                else (False, No_terminate_reason))"

definition should_deep_test :: "'v AgentState \<Rightarrow> bool \<times> deep_test_reason" where
  "should_deep_test state =
     (let recent_anomalies =
            (if length (anomalies state) \<ge> 3 then py_last_n 3 (anomalies state)
             else anomalies state)
      in if list_ex (\<lambda>a. severity a = MEDIUM) recent_anomalies
           then (True, Medium_severity_anomaly_detected)
         else if list_ex (\<lambda>a. category a = REGRESSION) recent_anomalies
           then (True, Baseline_deviation_detected)
         else
           let action_history = action_history (execution_context state)
           in if action_history \<noteq> []
                 \<and> dict_get (risk_scores (knowledge state)) (last action_history) 0.5 > 0.75
                then (True, High_risk_action_detected
                        (dict_get (risk_scores (knowledge state)) (last action_history) 0.5))
              else (False, No_deep_test_reason))"

text \<open>
  \<open>make_routing_decision\<close> writes \<open>state.decision.reasoning\<close> and returns the control
  decision; the model returns the decision together with the updated state.
\<close>

definition make_routing_decision :: "'v AgentState \<Rightarrow> ControlDecision \<times> 'v AgentState" where
  "make_routing_decision state =
     (case should_terminate state of
        (True, terminate_reason) \<Rightarrow>
          (TERMINATE,
           state\<lparr>decision := (decision state)\<lparr>reasoning :=
             Some (Reasoning_TERMINATE terminate_reason)\<rparr>\<rparr>)
      | (False, _) \<Rightarrow>
          (case should_deep_test state of
             (True, deep_test_reason) \<Rightarrow>
               (DEEP_TEST,
                state\<lparr>decision := (decision state)\<lparr>reasoning :=
                  Some (Reasoning_DEEP_TEST deep_test_reason)\<rparr>\<rparr>)
           | (False, _) \<Rightarrow>
               (CONTINUE,
                state\<lparr>decision := (decision state)\<lparr>reasoning := Some Reasoning_CONTINUE\<rparr>\<rparr>)))"

definition router_node :: "'v AgentState \<Rightarrow> 'v AgentState" where
  "router_node state =
     (case make_routing_decision state of
        (control_decision, state') \<Rightarrow>
          state'\<lparr>decision := (decision state')\<lparr>control := control_decision\<rparr>\<rparr>)"

section \<open>Action contract (schemas/action_contract.py)\<close>

text \<open>
  Strings are lists of characters with code points below 256. \<open>py_isspace\<close> is Python's
  notion of whitespace on these code points (the characters \<open>str.strip()\<close> removes):
  tab, line feed, vertical tab, form feed, carriage return, the separators 28 to 31,
  space, next-line (133) and no-break space (160). \<open>py_lower\<close> is \<open>str.lower()\<close>
  on the same range.
\<close>

definition py_isspace :: "char \<Rightarrow> bool" where
  "py_isspace c = (of_char c \<in> {9, 10, 11, 12, 13, 28, 29, 30, 31, 32, 133, 160 :: nat})"

definition py_strip :: "string \<Rightarrow> string" where
  "py_strip s = rev (dropWhile py_isspace (rev (dropWhile py_isspace s)))"

definition char_lower :: "char \<Rightarrow> char" where
  "char_lower c =
     (let n = (of_char c :: nat)
      in if (65 \<le> n \<and> n \<le> 90) \<or> (192 \<le> n \<and> n \<le> 222 \<and> n \<noteq> 215)
         then char_of (n + 32) else c)"

definition py_lower :: "string \<Rightarrow> string" where
  "py_lower s = map char_lower s"

definition forbidden_keys :: "string list" where
  "forbidden_keys = [''selector'', ''css_selector'', ''xpath'', ''dom'']"

text \<open>
  The field validator of \<open>action_id\<close>: the field constraint \<open>min_length=1\<close> is checked
  first, then the validator body; the accepted value is the stripped identifier.
\<close>

definition validate_action_id :: "string \<Rightarrow> error + string" where
  "validate_action_id v =
     (if length v < 1 then Inl ValidationError
      else if v = [] \<or> py_strip v = [] then Inl ValidationError
      else Inr (py_strip v))"

fun validate_parameters_keys :: "string list \<Rightarrow> error + unit" where
  "validate_parameters_keys [] = Inr ()"
| "validate_parameters_keys (key # keys) =
     (if py_lower key \<in> set forbidden_keys then Inl ValidationError
      else validate_parameters_keys keys)"

definition validate_parameters :: "(string \<times> 'v) list \<Rightarrow> error + (string \<times> 'v) list" where
  "validate_parameters v =
     (case validate_parameters_keys (map fst v) of
        Inl e \<Rightarrow> Inl e
      | Inr _ \<Rightarrow> Inr v)"

text \<open>
  Construction \<open>ActionContract(action_id=..., parameters=...)\<close>: both validators run,
  and a failure of either raises the validation error.
\<close>

definition new_ActionContract ::
  "string \<Rightarrow> (string \<times> 'v) list \<Rightarrow> error + 'v ActionContract" where
  "new_ActionContract aid params =
     (case (validate_action_id aid, validate_parameters params) of
        (Inr aid', Inr params') \<Rightarrow> Inr \<lparr>action_id = aid', parameters = params'\<rparr>
      | _ \<Rightarrow> Inl ValidationError)"

section \<open>Risk policy (policies/risk.py)\<close>

definition severity_weights :: "(string \<times> real) list" where
  "severity_weights = [(''LOW'', 0.2), (''MEDIUM'', 0.5), (''HIGH'', 0.9)]"

text \<open>
  The parameter \<open>action_id\<close> of \<open>update_risk_score\<close> is not read by its body; it is kept
  as the first argument.
\<close>

definition update_risk_score :: "string \<Rightarrow> real \<Rightarrow> bool \<Rightarrow> string \<Rightarrow> real \<Rightarrow> real" where
  "update_risk_score aid current_risk triggered_anomaly anomaly_severity learning_rate =
     (let new_risk =
            (if \<not> triggered_anomaly then current_risk * (1 - learning_rate * 0.5)
             else
               let severity_impact = dict_get severity_weights anomaly_severity 0.5
               in current_risk + (1.0 - current_risk) * learning_rate * severity_impact)
      in max 0.0 (min 1.0 new_risk))"

text \<open>
  The loop body of \<open>update_risks_from_anomalies\<close>: an anomaly whose \<open>action_id\<close> is
  \<open>None\<close> or the empty string is skipped (\<open>if anomaly.action_id\<close>); the call uses the
  default learning rate 0.2.
\<close>

fun update_risks_loop :: "(string \<times> real) list \<Rightarrow> AnomalyReport list \<Rightarrow> (string \<times> real) list" where
  "update_risks_loop updated_risks [] = updated_risks"
| "update_risks_loop updated_risks (anomaly # rest) =
     (case anomaly_action_id anomaly of
        None \<Rightarrow> update_risks_loop updated_risks rest
      | Some aid \<Rightarrow>
          if aid = [] then update_risks_loop updated_risks rest
          else
            let current_risk = dict_get updated_risks aid 0.5;
                new_risk = update_risk_score aid current_risk True
                             (severity_value (severity anomaly)) 0.2
            in update_risks_loop (AList.update aid new_risk updated_risks) rest)"

definition update_risks_from_anomalies ::
  "(string \<times> real) list \<Rightarrow> AnomalyReport list \<Rightarrow> nat \<Rightarrow> (string \<times> real) list" where
  "update_risks_from_anomalies current_risks anoms recent_anomalies_only =
     (let recent_anomalies =
            (if length anoms > recent_anomalies_only
             then py_last_n recent_anomalies_only anoms else anoms)
      in update_risks_loop current_risks recent_anomalies)"

section \<open>Exploration policy (policies/exploration.py)\<close>

text \<open>The unused parameter \<open>epsilon\<close> of the source is left out.\<close>

definition calculate_action_coverage_score :: "string \<Rightarrow> string list \<Rightarrow> real" where
  "calculate_action_coverage_score aid history =
     (let execution_count = count_list history aid
      in if execution_count = 0 then 1.0
         else if execution_count = 1 then 0.5
         else 1.0 / (real execution_count + 1))"

text \<open>
  The scoring loop of \<open>select_action_by_coverage\<close>; the last argument is the dictionary
  \<open>action_scores\<close> built so far.
\<close>

fun score_actions ::
  "string list \<Rightarrow> string list \<Rightarrow> (string \<times> real) list \<Rightarrow> real \<Rightarrow> (string \<times> real) list
     \<Rightarrow> (string \<times> real) list" where
  "score_actions [] history risks max_risk_threshold action_scores = action_scores"
| "score_actions (aid # rest) history risks max_risk_threshold action_scores =
     (let coverage_score = calculate_action_coverage_score aid history;
          risk_score = dict_get risks aid 0.5
      in if risk_score > max_risk_threshold
           then score_actions rest history risks max_risk_threshold action_scores
         else
           let combined_score = coverage_score * 0.7 + (1.0 - risk_score) * 0.3
           in score_actions rest history risks max_risk_threshold
                (AList.update aid combined_score action_scores))"

text \<open>
  \<open>max(items, key=lambda x: x[1])\<close>: the running best item is replaced only by an item
  whose value is strictly greater, so the first maximal item is returned.
\<close>

fun py_max_by_value :: "(string \<times> real) \<Rightarrow> (string \<times> real) list \<Rightarrow> (string \<times> real)" where
  "py_max_by_value best [] = best"
| "py_max_by_value best (item # items) =
     (if snd item > snd best then py_max_by_value item items
      else py_max_by_value best items)"

text \<open>
  The first argument is the number of stack frames still available to the interpreter:
  the function calls itself with the threshold relaxed to 1.0, and Python raises
  \<open>RecursionError\<close> when the frames run out.
\<close>

fun select_action_by_coverage ::
  "nat \<Rightarrow> string list \<Rightarrow> string list \<Rightarrow> (string \<times> real) list \<Rightarrow> real
     \<Rightarrow> error + string option" where
  "select_action_by_coverage 0 avail history risks max_risk_threshold =
     Inl RecursionError"
| "select_action_by_coverage (Suc frames) avail history risks max_risk_threshold =
     (if avail = [] then Inr None
      else
        case score_actions avail history risks max_risk_threshold [] of
          [] \<Rightarrow> select_action_by_coverage frames avail history risks 1.0
        | item # items \<Rightarrow> Inr (Some (fst (py_max_by_value item items))))"

section \<open>Action planner (nodes/action_planner.py)\<close>

text \<open>
  \<open>plan_next_action\<close> writes the updated risk scores into the state and returns the
  contract; the model returns the contract with the updated state. An empty selected
  identifier is falsy and yields \<open>None\<close>.
\<close>

definition plan_next_action ::
  "nat \<Rightarrow> 'v AgentState \<Rightarrow> error + ('v ActionContract option \<times> 'v AgentState)" where
  "plan_next_action frames state =
     (let avail = available_actions (ui_state state)
      in if avail = [] then Inr (None, state)
         else
           let updated_risks =
                 update_risks_from_anomalies (risk_scores (knowledge state)) (anomalies state) 10;
               state' = state\<lparr>knowledge := (knowledge state)\<lparr>risk_scores := updated_risks\<rparr>\<rparr>
           in case select_action_by_coverage frames avail
                     (action_history (execution_context state)) updated_risks 0.9 of
                Inl e \<Rightarrow> Inl e
              | Inr None \<Rightarrow> Inr (None, state')
              | Inr (Some selected_action_id) \<Rightarrow>
                  if selected_action_id = [] then Inr (None, state')
                  else
                    (case new_ActionContract selected_action_id [] of
                       Inl e \<Rightarrow> Inl e
                     | Inr action_contract \<Rightarrow> Inr (Some action_contract, state')))"

definition action_planner_node :: "nat \<Rightarrow> 'v AgentState \<Rightarrow> error + 'v AgentState" where
  "action_planner_node frames state =
     (case plan_next_action frames state of
        Inl e \<Rightarrow> Inl e
      | Inr (nxt, state') \<Rightarrow>
          Inr (state'\<lparr>decision := (decision state')\<lparr>
                 next_action := nxt,
                 reasoning :=
                   (case nxt of
                      Some c \<Rightarrow>
                        Some (Reasoning_selecting (action_id c)
                               (length (available_actions (ui_state state')))
                               (dict_get (risk_scores (knowledge state')) (action_id c) 0.5))
                    | None \<Rightarrow> Some Reasoning_no_valid_actions)\<rparr>\<rparr>))"

section \<open>Reasoning cycle (graph.py)\<close>

text \<open>
  The conditional edge after the router and the part of one cycle it governs: the router
  node, then either the end of the cycle (terminate) or the action planner node. The
  nodes before the router (interpretation, anomaly detection) and the learner after the
  planner do not write the decision.
\<close>

datatype next_step = Plan_action | Terminate_step

definition determine_next_step :: "'v AgentState \<Rightarrow> next_step" where
  "determine_next_step state =
     (let control = control (decision state)
      in if control = TERMINATE then Terminate_step
         else if control = CONTINUE then Plan_action
         else if control = DEEP_TEST then Plan_action
         else Plan_action)"

definition route_and_plan :: "nat \<Rightarrow> 'v AgentState \<Rightarrow> error + 'v AgentState" where
  "route_and_plan frames state =
     (let state1 = router_node state
      in case determine_next_step state1 of
           Terminate_step \<Rightarrow> Inr state1
         | Plan_action \<Rightarrow> action_planner_node frames state1)"

section \<open>Baseline statistics (invariants/baseline_checks.py)\<close>

text \<open>
  The result of an invariant check; of the fields of \<open>InvariantViolation\<close> only the
  flag \<open>violated\<close> is read by the anomaly detector's control flow.
\<close>

record InvariantViolation =
  violated :: bool

record BaselineMetrics =
  mean :: real
  std_dev :: real
  count :: int

text \<open>
  Welford's update. The division by \<open>new_count\<close> raises \<open>ZeroDivisionError\<close> when the
  stored count is \<open>-1\<close>. \<open>new_variance ** 0.5\<close> is the real square root for a
  non-negative variance; for a negative one (possible only with a negative stored count)
  Python yields a complex number, which the model marks as \<open>ComplexResult\<close>.
\<close>

definition BaselineMetrics_update :: "BaselineMetrics \<Rightarrow> real \<Rightarrow> error + BaselineMetrics" where
  "BaselineMetrics_update self new_value =
     (let new_count = count self + 1;
          delta = new_value - mean self
      in if new_count = 0 then Inl ZeroDivisionError
         else
           let new_mean = mean self + delta / real_of_int new_count;
               delta2 = new_value - new_mean;
               new_variance =
                 (real_of_int (count self) * (std_dev self)\<^sup>2 + delta * delta2)
                   / real_of_int new_count
           in if new_variance < 0 then Inl ComplexResult
              else Inr \<lparr>mean = new_mean, std_dev = sqrt new_variance, count = new_count\<rparr>)"

definition BaselineMetrics_to_dict :: "BaselineMetrics \<Rightarrow> BaselineDict" where
  "BaselineMetrics_to_dict self =
     \<lparr>dict_mean = Some (mean self), dict_std_dev = Some (std_dev self),
      dict_count = Some (count self)\<rparr>"

definition BaselineMetrics_from_dict :: "BaselineDict \<Rightarrow> BaselineMetrics" where
  "BaselineMetrics_from_dict data =
     \<lparr>mean = (case dict_mean data of None \<Rightarrow> 0.0 | Some m \<Rightarrow> m),
      std_dev = (case dict_std_dev data of None \<Rightarrow> 0.0 | Some s \<Rightarrow> s),
      count = (case dict_count data of None \<Rightarrow> 0 | Some c \<Rightarrow> c)\<rparr>"

text \<open>
  Every returning path of \<open>check_stability_against_baseline\<close> first updates the
  baseline, so an exception of the update propagates; \<open>with_update\<close> is that common
  tail. The metric name only appears in the message texts.
\<close>

definition with_update ::
  "bool \<Rightarrow> BaselineMetrics \<Rightarrow> real \<Rightarrow> error + (InvariantViolation \<times> BaselineMetrics option)" where
  "with_update v baseline_metrics current_value =
     (case BaselineMetrics_update baseline_metrics current_value of
        Inl e \<Rightarrow> Inl e
      | Inr updated_baseline \<Rightarrow> Inr (\<lparr>violated = v\<rparr>, Some updated_baseline))"

definition check_stability_against_baseline ::
  "string \<Rightarrow> real \<Rightarrow> BaselineDict option \<Rightarrow> real
     \<Rightarrow> error + (InvariantViolation \<times> BaselineMetrics option)" where
  "check_stability_against_baseline metric_name current_value baseline sigma_threshold =
     (case baseline of
        None \<Rightarrow>
          Inr (\<lparr>violated = False\<rparr>, Some \<lparr>mean = current_value, std_dev = 0.0, count = 1\<rparr>)
      | Some data \<Rightarrow>
          let baseline_metrics = BaselineMetrics_from_dict data
          in if count baseline_metrics < 3
               then with_update False baseline_metrics current_value
             else if std_dev baseline_metrics = 0
               then (if \<bar>current_value - mean baseline_metrics\<bar>
                          > 0.01 * \<bar>mean baseline_metrics\<bar>
                       then with_update True baseline_metrics current_value
                     else with_update False baseline_metrics current_value)
             else
               let z_score = \<bar>current_value - mean baseline_metrics\<bar> / std_dev baseline_metrics
               in if z_score > sigma_threshold
                    then with_update True baseline_metrics current_value
                  else with_update False baseline_metrics current_value)"

section \<open>Forward progress (invariants/core_invariants.py)\<close>

text \<open>
  Observations are compared with \<open>==\<close>, modelled by equality of the modelled values.
  The limit \<open>max_identical_observations\<close> is a natural number (the detector passes 3).
  \<open>recent_observations[0]\<close> raises \<open>IndexError\<close> on an empty list, which happens only
  for the limit 0 with an empty history.
\<close>

definition check_forward_progress ::
  "string list \<Rightarrow> 'o list \<Rightarrow> nat \<Rightarrow> error + InvariantViolation" where
  "check_forward_progress history observation_history max_identical_observations =
     (if length observation_history < max_identical_observations
        then Inr \<lparr>violated = False\<rparr>
      else
        let recent_observations = py_last_n max_identical_observations observation_history
        in case recent_observations of
             [] \<Rightarrow> Inl IndexError
           | first_obs # _ \<Rightarrow>
               let all_identical = list_all (\<lambda>obs. obs = first_obs) recent_observations
               in if all_identical \<and> length history \<ge> max_identical_observations
                    then Inr \<lparr>violated = True\<rparr>
                  else Inr \<lparr>violated = False\<rparr>)"

section \<open>Anomaly detector (nodes/anomaly_detector.py)\<close>

text \<open>
  Of \<open>detect_anomalies\<close> two blocks are embedded, each as a function that takes the
  list \<open>anomalies\<close> collected by the blocks before it and returns it extended: block 4
  (forward progress) and block 6 (baseline stability). The other blocks only append
  reports of category \<open>INVARIANT_VIOLATION\<close>.

  \<open>last_action\<close> is \<open>action_history[-1] if action_history else None\<close>, and
  \<open>previous_observation\<close> is \<open>previous_state or {}\<close>.
\<close>

definition last_action :: "'v AgentState \<Rightarrow> string option" where
  "last_action state =
     (if action_history (execution_context state) = [] then None
      else Some (last (action_history (execution_context state))))"

definition previous_observation :: "'v AgentState \<Rightarrow> (string \<times> 'v) list" where
  "previous_observation state =
     (case previous_state (execution_context state) of
        None \<Rightarrow> []
      | Some prev \<Rightarrow> prev)"

definition detect_forward_progress ::
  "'v AgentState \<Rightarrow> AnomalyReport list \<Rightarrow> error + AnomalyReport list" where
  "detect_forward_progress state anoms =
     (if step_count (execution_context state) \<ge> 3 then
        let observation_history = [previous_observation state, observation (ui_state state)]
        in case check_forward_progress (action_history (execution_context state))
                  observation_history 3 of
             Inl e \<Rightarrow> Inl e
           | Inr progress_check \<Rightarrow>
               if violated progress_check
                 then Inr (anoms @ [\<lparr>severity = HIGH, category = INSTABILITY,
                                      anomaly_action_id = last_action state\<rparr>])
               else Inr anoms
      else Inr anoms)"

text \<open>
  Block 6 iterates over the extracted metrics (name and value, in the order of the
  metrics dictionary), reads and writes \<open>state.knowledge.baselines\<close> and appends one
  report per violated check. The model threads the baselines and the anomaly list.
\<close>

fun detect_baseline_stability ::
  "(string \<times> real) list \<Rightarrow> string option \<Rightarrow> (string \<times> BaselineDict) list \<Rightarrow> AnomalyReport list
     \<Rightarrow> error + ((string \<times> BaselineDict) list \<times> AnomalyReport list)" where
  "detect_baseline_stability [] last_act bls anoms = Inr (bls, anoms)"
| "detect_baseline_stability ((metric_name, metric_value) # metrics) last_act bls anoms =
     (case check_stability_against_baseline metric_name metric_value
             (map_of bls metric_name) 2.0 of
        Inl e \<Rightarrow> Inl e
      | Inr (stability_check, updated_baseline) \<Rightarrow>
          let bls' =
                (case updated_baseline of
                   None \<Rightarrow> bls
                 | Some ub \<Rightarrow> AList.update metric_name (BaselineMetrics_to_dict ub) bls);
              anoms' =
                (if violated stability_check
                   then anoms @ [\<lparr>severity = MEDIUM, category = REGRESSION,
                                   anomaly_action_id = last_act\<rparr>]
                 else anoms)
          in detect_baseline_stability metrics last_act bls' anoms')"

section \<open>Fixtures (tests/fixtures.py)\<close>

text \<open>
  The values stored in an observation in the fixtures: \<open>None\<close>, booleans, integers,
  floats and strings.
\<close>

datatype pyval = PNone | PBool bool | PInt int | PFloat real | PStr string

definition create_basic_state :: "pyval AgentState" where
  "create_basic_state =
     \<lparr>ui_state =
        \<lparr>available_actions = [''click_submit'', ''fill_input'', ''navigate_back''],
         observation = [(''form_visible'', PBool True), (''error_message'', PNone),
                        (''element_count'', PInt 5)],
         page_url = Some ''https://example.com/test'',
         page_title = Some ''Test Page''\<rparr>,
      execution_context =
        \<lparr>step_count = 1, max_steps = 100, action_history = [''navigate_to_page''],
         previous_state = Some [(''form_visible'', PBool False), (''element_count'', PInt 3)]\<rparr>,
      knowledge = \<lparr>baselines = [], risk_scores = []\<rparr>,
      decision = \<lparr>next_action = None, control = CONTINUE, reasoning = None\<rparr>,
      anomalies = []\<rparr>"

definition create_state_no_actions :: "pyval AgentState" where
  "create_state_no_actions =
     create_basic_state\<lparr>ui_state := (ui_state create_basic_state)\<lparr>available_actions := []\<rparr>\<rparr>"

definition create_state_with_baselines :: "pyval AgentState" where
  "create_state_with_baselines =
     create_basic_state\<lparr>knowledge :=
       \<lparr>baselines =
          [(''response_time_ms'',
            \<lparr>dict_mean = Some 200.0, dict_std_dev = Some 50.0, dict_count = Some 10\<rparr>),
           (''element_count'',
            \<lparr>dict_mean = Some 5.0, dict_std_dev = Some 1.0, dict_count = Some 10\<rparr>)],
        risk_scores =
          [(''click_submit'', 0.2), (''fill_input'', 0.1), (''navigate_back'', 0.3)]\<rparr>\<rparr>"

section \<open>States for the evaluations\<close>


text \<open>
  The basic fixture offering a single action whose identifier ends in a space.
\<close>

definition state_padded_action :: "pyval AgentState" where
  "state_padded_action =
     create_basic_state\<lparr>ui_state :=
       (ui_state create_basic_state)\<lparr>available_actions := [''click_submit '']\<rparr>\<rparr>"

text \<open>
  The fixture without available actions, carrying the decision that the previous cycle
  left in the state.
\<close>

definition state_stale_decision :: "pyval AgentState" where
  "state_stale_decision =
     create_state_no_actions\<lparr>decision :=
       \<lparr>next_action = Some \<lparr>action_id = ''click_submit'', parameters = []\<rparr>,
        control = CONTINUE, reasoning = None\<rparr>\<rparr>"

text \<open>
  The fixture with baselines whose anomaly log holds 11 HIGH reports followed by 9 LOW
  reports.
\<close>

definition state_many_anomalies :: "pyval AgentState" where
  "state_many_anomalies =
     create_state_with_baselines\<lparr>anomalies :=
       replicate 11 \<lparr>severity = HIGH, category = INVARIANT_VIOLATION,
                      anomaly_action_id = Some ''click_submit''\<rparr>
       @ replicate 9 \<lparr>severity = LOW, category = INVARIANT_VIOLATION,
                       anomaly_action_id = Some ''fill_input''\<rparr>\<rparr>"

section \<open>Specification of the selection\<close>

text \<open>
  The definitions of this section follow the wording of the specification (section 4.4),
  not the source; the selection of the source is compared with them below.

  Coverage of an action executed \<open>n\<close> times, the stored risk with its default, and the
  combined score.
\<close>

definition spec_coverage :: "nat \<Rightarrow> real" where
  "spec_coverage n = (if n = 0 then 1 else if n = 1 then 1/2 else 1 / (real n + 1))"

definition spec_risk :: "(string \<times> real) list \<Rightarrow> string \<Rightarrow> real" where
  "spec_risk risks a = (case map_of risks a of None \<Rightarrow> 1/2 | Some r \<Rightarrow> r)"

definition spec_combined_score :: "string list \<Rightarrow> (string \<times> real) list \<Rightarrow> string \<Rightarrow> real" where
  "spec_combined_score history risks a =
     0.7 * spec_coverage (count_list history a) + 0.3 * (1 - spec_risk risks a)"

text \<open>
  The argmax of the combined score over the offered actions whose risk does not exceed
  the threshold, ties broken by first occurrence in the offered list: the first offered
  candidate whose score no candidate exceeds.
\<close>

definition spec_argmax_first ::
  "string list \<Rightarrow> (string \<times> real) list \<Rightarrow> real \<Rightarrow> string list \<Rightarrow> string option" where
  "spec_argmax_first history risks thr avail =
     find (\<lambda>a. spec_risk risks a \<le> thr
              \<and> (\<forall>b\<in>set avail. spec_risk risks b \<le> thr
                    \<longrightarrow> spec_combined_score history risks b \<le> spec_combined_score history risks a))
          avail"

text \<open>
  The elements of a list that are not in \<open>seen\<close>, each at its first occurrence: the
  order in which a dictionary receives its keys.
\<close>

fun first_occurrences :: "'a list \<Rightarrow> 'a list \<Rightarrow> 'a list" where
  "first_occurrences seen [] = []"
| "first_occurrences seen (x # xs) =
     (if x \<in> set seen then first_occurrences seen xs
      else x # first_occurrences (seen @ [x]) xs)"

section \<open>Router priority\<close>

text \<open>
  Claim C2. For every agent state whose list of available actions is empty, the control
  router decides TERMINATE, whatever the anomaly log, the step counters and the risk
  scores are: \<open>should_terminate\<close> answers with the reason of its first rule (no available
  actions remaining), \<open>make_routing_decision\<close> returns TERMINATE with that reason as
  reasoning, and \<open>router_node\<close> writes TERMINATE into \<open>decision.control\<close>.
\<close>

theorem router_empty_actions_terminate:
  assumes "available_actions (ui_state state) = []"
  shows "should_terminate state = (True, No_available_actions_remaining)
       \<and> fst (make_routing_decision state) = TERMINATE
       \<and> reasoning (decision (snd (make_routing_decision state)))
           = Some (Reasoning_TERMINATE No_available_actions_remaining)
       \<and> control (decision (router_node state)) = TERMINATE"
proof -
  have st: "should_terminate state = (True, No_available_actions_remaining)"
    using assms by (simp add: should_terminate_def)
  have mk: "make_routing_decision state =
      (TERMINATE, state\<lparr>decision := (decision state)\<lparr>reasoning :=
         Some (Reasoning_TERMINATE No_available_actions_remaining)\<rparr>\<rparr>)"
    by (simp add: make_routing_decision_def st)
  show ?thesis
    by (simp add: st mk router_node_def)
qed

theorem router_empty_actions_terminate_witness:
  "available_actions (ui_state (create_state_no_actions\<lparr>anomalies :=
       [\<lparr>severity = MEDIUM, category = REGRESSION, anomaly_action_id = None\<rparr>]\<rparr>)) = []
   \<and> control (decision (router_node (create_state_no_actions\<lparr>anomalies :=
       [\<lparr>severity = MEDIUM, category = REGRESSION, anomaly_action_id = None\<rparr>]\<rparr>))) = TERMINATE"
proof -
  have h: "available_actions (ui_state (create_state_no_actions\<lparr>anomalies :=
       [\<lparr>severity = MEDIUM, category = REGRESSION, anomaly_action_id = None\<rparr>]\<rparr>)) = []"
    by (simp add: create_state_no_actions_def)
  show ?thesis
    using h router_empty_actions_terminate [OF h] by simp
qed

section \<open>Risk clamping\<close>

lemma severity_impact_bounds:
  "0 < dict_get severity_weights sev 0.5 \<and> dict_get severity_weights sev 0.5 \<le> 9/10"
  by (simp add: dict_get_def severity_weights_def)

lemma risk_increase_bounds:
  fixes r lr w :: real
  assumes "0 \<le> r" "r \<le> 1" "0 \<le> lr" "lr \<le> 1" "0 < w" "w \<le> 9/10"
  shows "r \<le> r + (1 - r) * lr * w" and "r + (1 - r) * lr * w \<le> 1"
    and "r < 1 \<Longrightarrow> r + (1 - r) * lr * w < 1"
proof -
  have p0: "0 \<le> lr * w"
    using assms by (intro mult_nonneg_nonneg) auto
  have "lr * w \<le> 1 * (9/10)"
    using assms by (intro mult_mono) auto
  then have p1: "lr * w \<le> 9/10" by simp
  note p = p0 p1
  have q: "0 \<le> (1 - r) * (lr * w)" using assms p by (intro mult_nonneg_nonneg) auto
  have u: "(1 - r) * (lr * w) \<le> (1 - r) * (9/10)"
    using assms p by (intro mult_left_mono) auto
  show "r \<le> r + (1 - r) * lr * w" using q by (simp add: mult.assoc)
  show "r + (1 - r) * lr * w \<le> 1" using u assms by (simp add: mult.assoc)
  show "r + (1 - r) * lr * w < 1" if "r < 1" using u that by (simp add: mult.assoc)
qed

lemma risk_decay_bounds:
  fixes r lr :: real
  assumes "0 \<le> r" "r \<le> 1" "0 \<le> lr" "lr \<le> 1"
  shows "0 \<le> r * (1 - lr * 0.5)" and "r * (1 - lr * 0.5) \<le> r"
    and "0 < r \<Longrightarrow> 0 < r * (1 - lr * 0.5)"
proof -
  have f: "1/2 \<le> 1 - lr * 0.5" "1 - lr * 0.5 \<le> 1" using assms by auto
  show "0 \<le> r * (1 - lr * 0.5)" using assms f by (intro mult_nonneg_nonneg) auto
  show "r * (1 - lr * 0.5) \<le> r" using mult_left_mono[OF f(2) assms(1)] by simp
  show "0 < r * (1 - lr * 0.5)" if "0 < r" using that f by (intro mult_pos_pos) auto
qed

text \<open>
  Claim C8. For a current risk \<open>r\<close> in \<open>[0, 1]\<close> and a learning rate in \<open>[0, 1]\<close>
  (the default is 0.2), whatever the severity string: the update on an attributed
  anomaly returns a value that is at least \<open>r\<close> and strictly below 1 when \<open>r < 1\<close>; the
  decay without anomaly returns a value that is at most \<open>r\<close> and strictly above 0 when
  \<open>r > 0\<close>; and every returned value lies in \<open>[0, 1]\<close>.
\<close>

theorem update_risk_score_monotone_clamped:
  assumes "0 \<le> r" and "r \<le> 1" and "0 \<le> lr" and "lr \<le> 1"
  shows "r \<le> update_risk_score a r True sev lr
       \<and> (r < 1 \<longrightarrow> update_risk_score a r True sev lr < 1)
       \<and> update_risk_score a r False sev lr \<le> r
       \<and> (0 < r \<longrightarrow> 0 < update_risk_score a r False sev lr)
       \<and> 0 \<le> update_risk_score a r t sev lr
       \<and> update_risk_score a r t sev lr \<le> 1"
proof -
  let ?w = "dict_get severity_weights sev 0.5"
  note w = severity_impact_bounds[of sev]
  note inc = risk_increase_bounds[OF assms, of ?w]
  note dec = risk_decay_bounds[OF assms]
  have up: "update_risk_score a r True sev lr = r + (1 - r) * lr * ?w"
    using inc w assms by (simp add: update_risk_score_def Let_def min_def max_def)
  have down: "update_risk_score a r False sev lr = r * (1 - lr * 0.5)"
    using dec assms by (simp add: update_risk_score_def Let_def min_def max_def)
  have rng: "0 \<le> update_risk_score a r t sev lr \<and> update_risk_score a r t sev lr \<le> 1"
    by (simp add: update_risk_score_def Let_def min_def max_def)
  show ?thesis
    using inc w dec rng by (simp add: up down)
qed

theorem update_risk_score_monotone_clamped_witness:
  "(0::real) \<le> 1/2 \<and> (1/2::real) \<le> 1 \<and> (0::real) \<le> 1/5 \<and> (1/5::real) \<le> 1
   \<and> update_risk_score ''click_submit'' (1/2) True ''HIGH'' (1/5) = 59/100
   \<and> update_risk_score ''click_submit'' (1/2) False ''HIGH'' (1/5) = 9/20"
  using update_risk_score_monotone_clamped[of "1/2" "1/5" "''click_submit''" "''HIGH''" True]
  by (simp add: update_risk_score_def dict_get_def severity_weights_def)

section \<open>Action contract validation\<close>

lemma dropWhile_all_iff: "(\<forall>c\<in>set (dropWhile P xs). P c) \<longleftrightarrow> (\<forall>c\<in>set xs. P c)"
proof
  assume a: "\<forall>c\<in>set (dropWhile P xs). P c"
  have "dropWhile P xs = []"
  proof (rule ccontr)
    assume ne: "dropWhile P xs \<noteq> []"
    then have "\<not> P (hd (dropWhile P xs))" by (rule hd_dropWhile)
    moreover have "hd (dropWhile P xs) \<in> set (dropWhile P xs)" using ne by simp
    ultimately show False using a by blast
  qed
  then show "\<forall>c\<in>set xs. P c" by (simp add: dropWhile_eq_Nil_conv)
next
  assume "\<forall>c\<in>set xs. P c"
  then show "\<forall>c\<in>set (dropWhile P xs). P c" by (meson set_dropWhileD)
qed

lemma py_strip_empty_iff: "py_strip v = [] \<longleftrightarrow> (\<forall>c\<in>set v. py_isspace c)"
proof -
  have "py_strip v = [] \<longleftrightarrow> (\<forall>c\<in>set (rev (dropWhile py_isspace v)). py_isspace c)"
    by (simp add: py_strip_def dropWhile_eq_Nil_conv)
  also have "\<dots> \<longleftrightarrow> (\<forall>c\<in>set (dropWhile py_isspace v). py_isspace c)" by simp
  also have "\<dots> \<longleftrightarrow> (\<forall>c\<in>set v. py_isspace c)" by (rule dropWhile_all_iff)
  finally show ?thesis .
qed

lemma validate_action_id_fails_iff:
  "isl (validate_action_id v) \<longleftrightarrow> (\<forall>c\<in>set v. py_isspace c)"
  by (auto simp: validate_action_id_def py_strip_empty_iff)

lemma validate_action_id_accepts:
  "\<not> isl (validate_action_id v) \<Longrightarrow> validate_action_id v = Inr (py_strip v)"
  by (auto simp: validate_action_id_def split: if_splits)

lemma validate_parameters_keys_fails_iff:
  "isl (validate_parameters_keys keys) \<longleftrightarrow> (\<exists>k\<in>set keys. py_lower k \<in> set forbidden_keys)"
  by (induction keys) auto

lemma validate_parameters_fails_iff:
  "isl (validate_parameters params) \<longleftrightarrow> (\<exists>k\<in>set (map fst params). py_lower k \<in> set forbidden_keys)"
  using validate_parameters_keys_fails_iff[of "map fst params"]
  by (auto simp: validate_parameters_def split: sum.splits)

lemma validate_parameters_accepts:
  "\<not> isl (validate_parameters params) \<Longrightarrow> validate_parameters params = Inr params"
  by (auto simp: validate_parameters_def split: sum.splits)

text \<open>
  Claim C9. Constructing an action contract fails (with the validation error) if and
  only if the identifier is empty or consists of whitespace only, or some key of the
  parameters is, after lower-casing, one of \<open>selector\<close>, \<open>css_selector\<close>, \<open>xpath\<close>,
  \<open>dom\<close>. A contract that does not fail is the one with the stripped identifier and
  the given parameters, so a failing input is never turned into an accepted contract.
\<close>

theorem ActionContract_rejected_iff:
  "(new_ActionContract aid params = Inl ValidationError
      \<longleftrightarrow> aid = [] \<or> (\<forall>c\<in>set aid. py_isspace c)
          \<or> (\<exists>key\<in>set (map fst params).
                py_lower key \<in> {''selector'', ''css_selector'', ''xpath'', ''dom''}))
   \<and> (new_ActionContract aid params \<noteq> Inl ValidationError
      \<longrightarrow> new_ActionContract aid params
            = Inr \<lparr>action_id = py_strip aid, parameters = params\<rparr>)"
proof -
  have fk: "set forbidden_keys = {''selector'', ''css_selector'', ''xpath'', ''dom''}"
    by (simp add: forbidden_keys_def)
  show ?thesis
  proof (cases "isl (validate_action_id aid) \<or> isl (validate_parameters params)")
    case True
    then have "new_ActionContract aid params = Inl ValidationError"
      by (auto simp: new_ActionContract_def isl_def split: sum.splits)
    with True show ?thesis
      using validate_action_id_fails_iff[of aid] validate_parameters_fails_iff[of params]
      by (auto simp: fk)
  next
    case False
    then have "new_ActionContract aid params
               = Inr \<lparr>action_id = py_strip aid, parameters = params\<rparr>"
      using validate_action_id_accepts[of aid] validate_parameters_accepts[of params]
      by (simp add: new_ActionContract_def)
    with False show ?thesis
      using validate_action_id_fails_iff[of aid] validate_parameters_fails_iff[of params]
      by (auto simp: fk)
  qed
qed

lemma py_lower_XPath: "py_lower ''XPath'' = ''xpath''"
  by code_simp

lemma py_lower_wait: "py_lower ''wait'' = ''wait''"
  by code_simp

lemma py_strip_click_submit: "py_strip ''click_submit'' = ''click_submit''"
  by code_simp

theorem ActionContract_rejected_iff_witness:
  "new_ActionContract ''   '' ([] :: (string \<times> pyval) list) = Inl ValidationError
   \<and> new_ActionContract ''click_button'' [(''XPath'', PStr ''//div'')] = Inl ValidationError
   \<and> new_ActionContract ''click_submit'' [(''wait'', PBool True)]
       = Inr \<lparr>action_id = ''click_submit'', parameters = [(''wait'', PBool True)]\<rparr>"
  using ActionContract_rejected_iff[of "''   ''" "[] :: (string \<times> pyval) list"]
        ActionContract_rejected_iff[of "''click_button''" "[(''XPath'', PStr ''//div'')]"]
        ActionContract_rejected_iff[of "''click_submit''" "[(''wait'', PBool True)]"]
  by (simp add: py_isspace_def py_lower_XPath py_lower_wait py_strip_click_submit)

section \<open>Baseline stability check\<close>

lemma welford_variance_nonneg:
  fixes d s :: real and c :: int
  assumes "0 \<le> c"
  shows "0 \<le> (real_of_int c * s\<^sup>2 + d * (d - d / real_of_int (c + 1))) / real_of_int (c + 1)"
proof -
  have pos: "0 < real_of_int (c + 1)" using assms by simp
  have "d - d / real_of_int (c + 1) = d * (real_of_int c / real_of_int (c + 1))"
    using pos by (simp add: field_simps)
  then have "d * (d - d / real_of_int (c + 1)) = d\<^sup>2 * (real_of_int c / real_of_int (c + 1))"
    by (simp add: power2_eq_square)
  moreover have "0 \<le> d\<^sup>2 * (real_of_int c / real_of_int (c + 1))"
    using assms pos by (intro mult_nonneg_nonneg divide_nonneg_pos) auto
  moreover have "0 \<le> real_of_int c * s\<^sup>2"
    using assms by (intro mult_nonneg_nonneg) auto
  ultimately show ?thesis using pos by (intro divide_nonneg_pos add_nonneg_nonneg) auto
qed

lemma BaselineMetrics_update_returns:
  assumes "0 \<le> count bm"
  shows "\<exists>ub. BaselineMetrics_update bm x = Inr ub \<and> count ub = count bm + 1"
proof -
  have ne: "count bm + 1 \<noteq> 0" using assms by simp
  have "\<not> (real_of_int (count bm) * (std_dev bm)\<^sup>2
            + (x - mean bm) * (x - (mean bm + (x - mean bm) / real_of_int (count bm + 1))))
          / real_of_int (count bm + 1) < 0"
    using welford_variance_nonneg[OF assms, of "std_dev bm" "x - mean bm"]
    by (simp add: algebra_simps)
  then show ?thesis
    using ne by (simp add: BaselineMetrics_update_def Let_def)
qed

lemma with_update_returns:
  assumes "0 \<le> count bm"
  shows "\<exists>ub. with_update v bm x = Inr (\<lparr>violated = v\<rparr>, Some ub) \<and> count ub = count bm + 1"
  using BaselineMetrics_update_returns[OF assms, of x]
  by (auto simp: with_update_def)

lemma with_update_flag:
  "with_update v bm x = Inr r \<Longrightarrow> violated (fst r) = v"
  by (auto simp: with_update_def split: sum.splits)

text \<open>
  Claim C3. For a stored baseline with \<open>count \<ge> 3\<close> and \<open>std_dev > 0\<close> the stability
  check returns, and reports a violation if and only if
  \<open>|x - mean| / std_dev > sigma_threshold\<close>. With \<open>count < 3\<close> no returned result is a
  violation (and the check returns for every count from 0 to 2). On the first
  observation of a metric (no stored baseline) the result is no violation together with
  the baseline \<open>{mean = x, std_dev = 0, count = 1}\<close>. For the baseline
  \<open>{mean: 200, std_dev: 50, count: 10}\<close> and threshold 2.0, the value 220 gives no
  violation and the value 500 gives a violation.
\<close>

theorem check_stability_against_baseline_cases:
  "(3 \<le> count (BaselineMetrics_from_dict d) \<and> 0 < std_dev (BaselineMetrics_from_dict d)
      \<longrightarrow> (\<exists>ub. check_stability_against_baseline name x (Some d) sigma
                 = Inr (\<lparr>violated =
                          (\<bar>x - mean (BaselineMetrics_from_dict d)\<bar>
                             / std_dev (BaselineMetrics_from_dict d) > sigma)\<rparr>, Some ub)))
   \<and> (count (BaselineMetrics_from_dict d) < 3
      \<longrightarrow> (\<forall>r. check_stability_against_baseline name x (Some d) sigma = Inr r
                 \<longrightarrow> \<not> violated (fst r))
        \<and> (0 \<le> count (BaselineMetrics_from_dict d)
             \<longrightarrow> (\<exists>ub. check_stability_against_baseline name x (Some d) sigma
                        = Inr (\<lparr>violated = False\<rparr>, Some ub))))
   \<and> check_stability_against_baseline name x None sigma
       = Inr (\<lparr>violated = False\<rparr>, Some \<lparr>mean = x, std_dev = 0, count = 1\<rparr>)
   \<and> (\<exists>ub. check_stability_against_baseline name 220
              (Some \<lparr>dict_mean = Some 200, dict_std_dev = Some 50, dict_count = Some 10\<rparr>) 2.0
            = Inr (\<lparr>violated = False\<rparr>, Some ub))
   \<and> (\<exists>ub. check_stability_against_baseline name 500
              (Some \<lparr>dict_mean = Some 200, dict_std_dev = Some 50, dict_count = Some 10\<rparr>) 2.0
            = Inr (\<lparr>violated = True\<rparr>, Some ub))"
proof -
  let ?bm = "BaselineMetrics_from_dict d"
  have general: "\<exists>ub. check_stability_against_baseline name' x' (Some d') sigma'
                 = Inr (\<lparr>violated =
                          (\<bar>x' - mean (BaselineMetrics_from_dict d')\<bar>
                             / std_dev (BaselineMetrics_from_dict d') > sigma')\<rparr>, Some ub)"
    if "3 \<le> count (BaselineMetrics_from_dict d')" "0 < std_dev (BaselineMetrics_from_dict d')"
    for name' x' d' sigma'
  proof -
    have c0: "0 \<le> count (BaselineMetrics_from_dict d')" using that by simp
    show ?thesis
      using that with_update_returns[OF c0, of True x'] with_update_returns[OF c0, of False x']
      by (auto simp: check_stability_against_baseline_def Let_def)
  qed
  have few: "\<not> violated (fst r)"
    if "count ?bm < 3" "check_stability_against_baseline name x (Some d) sigma = Inr r" for r
    using that with_update_flag[of False ?bm x r]
    by (simp add: check_stability_against_baseline_def Let_def)
  have few_returns: "\<exists>ub. check_stability_against_baseline name x (Some d) sigma
                        = Inr (\<lparr>violated = False\<rparr>, Some ub)"
    if "count ?bm < 3" "0 \<le> count ?bm"
    using that with_update_returns[OF that(2), of False x]
    by (auto simp: check_stability_against_baseline_def Let_def)
  have first: "check_stability_against_baseline name x None sigma
       = Inr (\<lparr>violated = False\<rparr>, Some \<lparr>mean = x, std_dev = 0, count = 1\<rparr>)"
    by (simp add: check_stability_against_baseline_def)
  let ?d0 = "\<lparr>dict_mean = Some 200, dict_std_dev = Some 50, dict_count = Some 10\<rparr>"
  have ex220: "\<exists>ub. check_stability_against_baseline name 220 (Some ?d0) 2.0
            = Inr (\<lparr>violated = False\<rparr>, Some ub)"
    using general[of ?d0 name 220 "2.0"] by (simp add: BaselineMetrics_from_dict_def)
  have ex500: "\<exists>ub. check_stability_against_baseline name 500 (Some ?d0) 2.0
            = Inr (\<lparr>violated = True\<rparr>, Some ub)"
    using general[of ?d0 name 500 "2.0"] by (simp add: BaselineMetrics_from_dict_def)
  show ?thesis
    using general[of d name x sigma] few few_returns first ex220 ex500 by blast
qed

theorem check_stability_against_baseline_cases_witness:
  "3 \<le> count (BaselineMetrics_from_dict
          \<lparr>dict_mean = Some 5, dict_std_dev = Some 1, dict_count = Some 10\<rparr>)
   \<and> 0 < std_dev (BaselineMetrics_from_dict
          \<lparr>dict_mean = Some 5, dict_std_dev = Some 1, dict_count = Some 10\<rparr>)
   \<and> (\<exists>ub. check_stability_against_baseline ''element_count'' 9
              (Some \<lparr>dict_mean = Some 5, dict_std_dev = Some 1, dict_count = Some 10\<rparr>) 2
            = Inr (\<lparr>violated = True\<rparr>, Some ub))
   \<and> count (BaselineMetrics_from_dict
          \<lparr>dict_mean = Some 5, dict_std_dev = Some 0, dict_count = Some 2\<rparr>) < 3
   \<and> 0 \<le> count (BaselineMetrics_from_dict
          \<lparr>dict_mean = Some 5, dict_std_dev = Some 0, dict_count = Some 2\<rparr>)
   \<and> (\<exists>ub. check_stability_against_baseline ''element_count'' 900
              (Some \<lparr>dict_mean = Some 5, dict_std_dev = Some 0, dict_count = Some 2\<rparr>) 2
            = Inr (\<lparr>violated = False\<rparr>, Some ub))"
  using check_stability_against_baseline_cases
          [of "\<lparr>dict_mean = Some 5, dict_std_dev = Some 1, dict_count = Some 10\<rparr>"
              "''element_count''" 9 2]
        check_stability_against_baseline_cases
          [of "\<lparr>dict_mean = Some 5, dict_std_dev = Some 0, dict_count = Some 2\<rparr>"
              "''element_count''" 900 2]
  by (simp add: BaselineMetrics_from_dict_def)

section \<open>Coverage-guided selection\<close>

lemma update_absent: "k \<notin> fst ` set al \<Longrightarrow> AList.update k v al = al @ [(k, v)]"
  by (induction al) auto

lemma update_same:
  assumes "k \<in> fst ` set al" and "\<forall>(k', v')\<in>set al. v' = f k'"
  shows "AList.update k (f k) al = al"
proof -
  obtain v where "map_of al k = Some v"
    using assms(1) by (metis domD dom_map_of_conv_image_fst)
  moreover from this have "(k, v) \<in> set al" by (rule map_of_SomeD)
  ultimately have "map_of al k = Some (f k)" using assms(2) by auto
  then show ?thesis by (rule update_triv)
qed

lemma score_actions_Cons:
  "score_actions (a # rest) history risks thr acc =
     (if spec_risk risks a \<le> thr
      then score_actions rest history risks thr
             (AList.update a (spec_combined_score history risks a) acc)
      else score_actions rest history risks thr acc)"
proof -
  have r: "dict_get risks a 0.5 = spec_risk risks a"
    by (simp add: dict_get_def spec_risk_def)
  have c: "calculate_action_coverage_score a history * 0.7 + (1.0 - dict_get risks a 0.5) * 0.3
           = spec_combined_score history risks a"
    unfolding r
    by (simp add: calculate_action_coverage_score_def spec_combined_score_def
        spec_coverage_def Let_def)
  show ?thesis
    unfolding score_actions.simps Let_def c unfolding r by (simp add: not_less)
qed

lemma score_actions_closed_form:
  assumes "\<forall>(k, v)\<in>set acc. v = spec_combined_score history risks k"
  shows "score_actions avail history risks thr acc
         = acc @ map (\<lambda>a. (a, spec_combined_score history risks a))
                   (first_occurrences (map fst acc)
                      (filter (\<lambda>a. spec_risk risks a \<le> thr) avail))"
  using assms
proof (induction avail arbitrary: acc)
  case Nil
  then show ?case by simp
next
  case (Cons a avail)
  let ?sc = "spec_combined_score history risks"
  show ?case
  proof (cases "spec_risk risks a \<le> thr")
    case False
    then show ?thesis
      using Cons.IH[OF Cons.prems] by (simp add: score_actions_Cons del: score_actions.simps)
  next
    case cand: True
    show ?thesis
    proof (cases "a \<in> fst ` set acc")
      case True
      have "AList.update a (?sc a) acc = acc"
        using True Cons.prems by (rule update_same)
      then show ?thesis
        using cand True Cons.IH[OF Cons.prems]
        by (simp add: score_actions_Cons del: score_actions.simps)
    next
      case False
      have upd: "AList.update a (?sc a) acc = acc @ [(a, ?sc a)]"
        using False by (rule update_absent)
      have inv: "\<forall>(k, v)\<in>set (acc @ [(a, ?sc a)]). v = ?sc k"
        using Cons.prems by auto
      show ?thesis
        using cand False Cons.IH[OF inv]
        by (simp add: score_actions_Cons upd del: score_actions.simps)
    qed
  qed
qed

lemma set_first_occurrences: "set (first_occurrences seen ys) = set ys - set seen"
  by (induction ys arbitrary: seen) auto

lemma first_occurrences_split:
  "first_occurrences seen ys = pre @ k # post
   \<Longrightarrow> \<exists>p1 p2. ys = p1 @ k # p2 \<and> set p1 \<subseteq> set seen \<union> set pre"
proof (induction ys arbitrary: seen pre)
  case Nil
  then show ?case by simp
next
  case (Cons y ys)
  show ?case
  proof (cases "y \<in> set seen")
    case True
    with Cons.prems have "first_occurrences seen ys = pre @ k # post" by simp
    from Cons.IH[OF this] obtain p1 p2 where
      "ys = p1 @ k # p2" "set p1 \<subseteq> set seen \<union> set pre" by blast
    then have "y # ys = (y # p1) @ k # p2 \<and> set (y # p1) \<subseteq> set seen \<union> set pre"
      using True by auto
    then show ?thesis by blast
  next
    case False
    with Cons.prems have eq: "y # first_occurrences (seen @ [y]) ys = pre @ k # post" by simp
    show ?thesis
    proof (cases pre)
      case Nil
      with eq have "y = k" by simp
      then have "y # ys = [] @ k # ys \<and> set [] \<subseteq> set seen \<union> set pre" by simp
      then show ?thesis by blast
    next
      case (Cons z pre')
      with eq have z: "z = y" and rest: "first_occurrences (seen @ [y]) ys = pre' @ k # post"
        by auto
      from Cons.IH[OF rest] obtain p1 p2 where
        "ys = p1 @ k # p2" "set p1 \<subseteq> set (seen @ [y]) \<union> set pre'" by blast
      then have "y # ys = (y # p1) @ k # p2 \<and> set (y # p1) \<subseteq> set seen \<union> set pre"
        using Cons z by auto
      then show ?thesis by blast
    qed
  qed
qed

lemma filter_split:
  "filter P xs = p1 @ k # p2 \<Longrightarrow> \<exists>q1 q2. xs = q1 @ k # q2 \<and> filter P q1 = p1 \<and> P k"
proof (induction xs arbitrary: p1)
  case Nil
  then show ?case by simp
next
  case (Cons x xs)
  show ?case
  proof (cases "P x")
    case False
    with Cons.prems have "filter P xs = p1 @ k # p2" by simp
    from Cons.IH[OF this] obtain q1 q2 where "xs = q1 @ k # q2" "filter P q1 = p1" "P k" by blast
    then have "x # xs = (x # q1) @ k # q2 \<and> filter P (x # q1) = p1 \<and> P k" using False by simp
    then show ?thesis by blast
  next
    case True
    with Cons.prems have eq: "x # filter P xs = p1 @ k # p2" by simp
    show ?thesis
    proof (cases p1)
      case Nil
      with eq have "x = k" by simp
      then have "x # xs = [] @ k # xs \<and> filter P [] = p1 \<and> P k" using Nil True by simp
      then show ?thesis by blast
    next
      case (Cons z p1')
      with eq have z: "z = x" and rest: "filter P xs = p1' @ k # p2" by auto
      from Cons.IH[OF rest] obtain q1 q2 where "xs = q1 @ k # q2" "filter P q1 = p1'" "P k" by blast
      then have "x # xs = (x # q1) @ k # q2 \<and> filter P (x # q1) = p1 \<and> P k"
        using True Cons z by simp
      then show ?thesis by blast
    qed
  qed
qed

lemma py_max_by_value_first_max:
  "\<exists>pre post. best # items = pre @ py_max_by_value best items # post
     \<and> (\<forall>y\<in>set pre. snd y < snd (py_max_by_value best items))
     \<and> (\<forall>y\<in>set post. snd y \<le> snd (py_max_by_value best items))"
proof (induction items arbitrary: best)
  case Nil
  have "[best] = [] @ py_max_by_value best [] # []" by simp
  then show ?case by fastforce
next
  case (Cons item items)
  show ?case
  proof (cases "snd item > snd best")
    case True
    let ?r = "py_max_by_value item items"
    from Cons.IH[of item] obtain pre post where
      sp: "item # items = pre @ ?r # post" and
      lt: "\<forall>y\<in>set pre. snd y < snd ?r" and le: "\<forall>y\<in>set post. snd y \<le> snd ?r" by blast
    have "item \<in> set (pre @ ?r # post)" using sp by (metis list.set_intros(1))
    then have "snd item \<le> snd ?r" using lt le by auto
    then have "snd best < snd ?r" using True by simp
    then have "best # item # items = (best # pre) @ ?r # post
        \<and> (\<forall>y\<in>set (best # pre). snd y < snd ?r) \<and> (\<forall>y\<in>set post. snd y \<le> snd ?r)"
      using sp lt le by simp
    moreover have "py_max_by_value best (item # items) = ?r" using True by simp
    ultimately show ?thesis by metis
  next
    case False
    let ?r = "py_max_by_value best items"
    have r: "py_max_by_value best (item # items) = ?r" using False by simp
    from Cons.IH[of best] obtain pre post where
      sp: "best # items = pre @ ?r # post" and
      lt: "\<forall>y\<in>set pre. snd y < snd ?r" and le: "\<forall>y\<in>set post. snd y \<le> snd ?r" by blast
    show ?thesis
    proof (cases pre)
      case Nil
      with sp have b: "?r = best" and p: "post = items" by auto
      have "best # item # items = [] @ ?r # (item # items)
          \<and> (\<forall>y\<in>set (item # items). snd y \<le> snd ?r)"
        using b p le False by auto
      then show ?thesis unfolding r by fastforce
    next
      case (Cons z pre')
      with sp have z: "z = best" and rest: "items = pre' @ ?r # post" by auto
      have "snd best < snd ?r" using lt Cons z by simp
      then have "snd item < snd ?r" using False by simp
      then have "best # item # items = (best # item # pre') @ ?r # post
          \<and> (\<forall>y\<in>set (best # item # pre'). snd y < snd ?r)"
        using rest lt Cons z by auto
      then show ?thesis unfolding r using le by blast
    qed
  qed
qed

lemma find_first:
  "(\<forall>b\<in>set q1. \<not> P b) \<Longrightarrow> P k \<Longrightarrow> find P (q1 @ k # q2) = Some k"
  by (induction q1) auto

lemma select_first_pass:
  assumes "\<exists>a\<in>set avail. spec_risk risks a \<le> thr"
  shows "\<exists>k\<in>set avail. select_action_by_coverage (Suc n) avail history risks thr = Inr (Some k)
           \<and> spec_argmax_first history risks thr avail = Some k"
proof -
  let ?cand = "\<lambda>a. spec_risk risks a \<le> thr"
  let ?sc = "spec_combined_score history risks"
  let ?f = "\<lambda>a. (a, ?sc a)"
  let ?ks = "first_occurrences [] (filter ?cand avail)"
  have ne: "avail \<noteq> []" using assms by auto
  have items: "score_actions avail history risks thr [] = map ?f ?ks"
    using score_actions_closed_form[of "[]" history risks avail thr] by simp
  have set_ks: "set ?ks = {a \<in> set avail. ?cand a}"
    by (auto simp: set_first_occurrences)
  then have "?ks \<noteq> []" using assms by auto
  then obtain k0 ks' where ks: "?ks = k0 # ks'" by (cases ?ks) auto
  let ?r = "py_max_by_value (?f k0) (map ?f ks')"
  have sel: "select_action_by_coverage (Suc n) avail history risks thr = Inr (Some (fst ?r))"
    using ne by (simp add: items ks del: score_actions.simps)
  obtain pre post where
    sp: "?f k0 # map ?f ks' = pre @ ?r # post" and
    lt: "\<forall>y\<in>set pre. snd y < snd ?r" and le: "\<forall>y\<in>set post. snd y \<le> snd ?r"
    using py_max_by_value_first_max[of "?f k0" "map ?f ks'"] by blast
  from sp have "map ?f ?ks = pre @ ?r # post" by (simp add: ks)
  then obtain kpre krest where
    k1: "?ks = kpre @ krest" "map ?f kpre = pre" "map ?f krest = ?r # post"
    by (auto simp: map_eq_append_conv)
  then obtain k kpost where
    k2: "krest = k # kpost" "?f k = ?r" "map ?f kpost = post"
    by (auto simp: map_eq_Cons_conv)
  have fst_r: "fst ?r = k" and snd_r: "snd ?r = ?sc k" using k2(2) by (metis fst_conv, metis snd_conv)
  have lt': "\<forall>b\<in>set kpre. ?sc b < ?sc k" using lt k1(2) snd_r by auto
  have le': "\<forall>b\<in>set kpost. ?sc b \<le> ?sc k" using le k2(3) snd_r by auto
  have all_le: "\<forall>b\<in>set ?ks. ?sc b \<le> ?sc k"
    using lt' le' k1(1) k2(1) by auto
  have split_ks: "?ks = kpre @ k # kpost" using k1(1) k2(1) by simp
  obtain p1 p2 where p: "filter ?cand avail = p1 @ k # p2" "set p1 \<subseteq> set [] \<union> set kpre"
    using first_occurrences_split[OF split_ks] by blast
  obtain q1 q2 where q: "avail = q1 @ k # q2" "filter ?cand q1 = p1" "?cand k"
    using filter_split[OF p(1)] by blast
  let ?P = "\<lambda>a. ?cand a \<and> (\<forall>b\<in>set avail. ?cand b \<longrightarrow> ?sc b \<le> ?sc a)"
  have k_in: "k \<in> set avail" using q(1) by simp
  have Pk: "?P k" using q(3) all_le set_ks by auto
  have notP: "\<forall>b\<in>set q1. \<not> ?P b"
  proof
    fix b assume b: "b \<in> set q1"
    show "\<not> ?P b"
    proof
      assume Pb: "?P b"
      then have "b \<in> set (filter ?cand q1)" using b by simp
      then have "b \<in> set kpre" using q(2) p(2) by auto
      then have "?sc b < ?sc k" using lt' by blast
      moreover have "?sc k \<le> ?sc b" using Pb k_in q(3) by blast
      ultimately show False by simp
    qed
  qed
  have "find ?P (q1 @ k # q2) = Some k" using notP Pk by (rule find_first)
  then have "spec_argmax_first history risks thr avail = Some k"
    unfolding spec_argmax_first_def using q(1) by simp
  then show ?thesis using sel fst_r k_in by auto
qed

lemma select_retry:
  assumes "avail \<noteq> []" and "\<not> (\<exists>a\<in>set avail. spec_risk risks a \<le> thr)"
  shows "score_actions avail history risks thr [] = []"
    and "select_action_by_coverage (Suc n) avail history risks thr
         = select_action_by_coverage n avail history risks 1"
proof -
  have "filter (\<lambda>a. spec_risk risks a \<le> thr) avail = []"
    using assms(2) by (simp add: filter_empty_conv)
  then show e: "score_actions avail history risks thr [] = []"
    using score_actions_closed_form[of "[]" history risks avail thr] by simp
  show "select_action_by_coverage (Suc n) avail history risks thr
         = select_action_by_coverage n avail history risks 1"
    using assms(1) by (simp add: e del: score_actions.simps)
qed

lemma select_never_returns:
  assumes "avail \<noteq> []" and "\<forall>a\<in>set avail. 1 < spec_risk risks a" and "thr \<le> 1"
  shows "select_action_by_coverage n avail history risks thr = Inl RecursionError"
  using assms(3)
proof (induction n arbitrary: thr)
  case 0
  then show ?case by simp
next
  case (Suc n)
  have "\<not> (\<exists>a\<in>set avail. spec_risk risks a \<le> thr)"
    using assms(2) Suc.prems by fastforce
  then have "select_action_by_coverage (Suc n) avail history risks thr
         = select_action_by_coverage n avail history risks 1"
    using assms(1) by (rule select_retry(2)[rotated])
  then show ?case using Suc.IH[of 1] by simp
qed


lemma dict_get_risk: "dict_get risks a 0.5 = spec_risk risks a"
  by (simp add: dict_get_def spec_risk_def)

lemma coverage_eq_spec:
  "calculate_action_coverage_score a history = spec_coverage (count_list history a)"
  by (simp add: calculate_action_coverage_score_def spec_coverage_def Let_def)

text \<open>
  Claim C6. For a non-empty offered list in which some action is not excluded (its risk
  is at most the threshold or, after relaxation, at most 1.0), the selection with at
  least two stack frames returns an offered action, and it is the first offered action
  that attains the maximum of the combined score over the non-excluded candidates, where
  the candidates are those within the threshold if there are any and those within 1.0
  otherwise. The combined score of the source equals
  \<open>0.7 * coverage + 0.3 * (1 - risk)\<close> with coverage 1 for an action never executed,
  0.5 for one executed once and \<open>1/(n+1)\<close> for one executed \<open>n \<ge> 2\<close> times, and risk
  defaulting to 0.5.
\<close>

theorem select_action_is_first_argmax:
  assumes "avail \<noteq> []"
    and "\<exists>a\<in>set avail. dict_get risks a 0.5 \<le> thr \<or> dict_get risks a 0.5 \<le> 1"
    and "2 \<le> frames"
  shows "(\<exists>k\<in>set avail.
            select_action_by_coverage frames avail history risks thr = Inr (Some k)
          \<and> spec_argmax_first history risks
               (if \<exists>a\<in>set avail. dict_get risks a 0.5 \<le> thr then thr else 1) avail = Some k)
       \<and> (\<forall>a. calculate_action_coverage_score a history * 0.7 + (1.0 - dict_get risks a 0.5) * 0.3
                = spec_combined_score history risks a)"
proof -
  obtain n where frames: "frames = Suc (Suc n)"
    using assms(3) by (metis add_2_eq_Suc le_Suc_ex)
  have sc: "\<forall>a. calculate_action_coverage_score a history * 0.7
                   + (1.0 - dict_get risks a 0.5) * 0.3
                = spec_combined_score history risks a"
    unfolding dict_get_risk coverage_eq_spec
    by (simp add: spec_combined_score_def algebra_simps)
  show ?thesis
  proof (cases "\<exists>a\<in>set avail. spec_risk risks a \<le> thr")
    case True
    from select_first_pass[OF True, of "Suc n" history] show ?thesis
      using True sc unfolding frames dict_get_risk by simp
  next
    case False
    then have relaxed: "\<exists>a\<in>set avail. spec_risk risks a \<le> 1"
      using assms(2) unfolding dict_get_risk by blast
    have "select_action_by_coverage (Suc (Suc n)) avail history risks thr
         = select_action_by_coverage (Suc n) avail history risks 1"
      using assms(1) False by (rule select_retry(2))
    with select_first_pass[OF relaxed, of n history] show ?thesis
      using False sc unfolding frames dict_get_risk by simp
  qed
qed

theorem select_action_is_first_argmax_witness:
  "[''click_submit'', ''fill_input'', ''navigate_back''] \<noteq> []
   \<and> (\<exists>a\<in>set [''click_submit'', ''fill_input'', ''navigate_back''].
         dict_get [(''fill_input'', 1/10 :: real), (''navigate_back'', 1/10)] a 0.5 \<le> 9/10
       \<or> dict_get [(''fill_input'', 1/10 :: real), (''navigate_back'', 1/10)] a 0.5 \<le> 1)
   \<and> (2::nat) \<le> 2
   \<and> select_action_by_coverage 2 [''click_submit'', ''fill_input'', ''navigate_back'']
        [''click_submit''] [(''fill_input'', 1/10 :: real), (''navigate_back'', 1/10)] (9/10)
      = Inr (Some ''fill_input'')"
proof -
  have h: "\<exists>a\<in>set [''click_submit'', ''fill_input'', ''navigate_back''].
         dict_get [(''fill_input'', 1/10 :: real), (''navigate_back'', 1/10)] a 0.5 \<le> 9/10
       \<or> dict_get [(''fill_input'', 1/10 :: real), (''navigate_back'', 1/10)] a 0.5 \<le> 1"
    by (simp add: dict_get_def)
  have c: "\<exists>a\<in>set [''click_submit'', ''fill_input'', ''navigate_back''].
         dict_get [(''fill_input'', 1/10 :: real), (''navigate_back'', 1/10)] a 0.5 \<le> 9/10"
    by (simp add: dict_get_def)
  have a: "spec_argmax_first [''click_submit''] [(''fill_input'', 1/10 :: real), (''navigate_back'', 1/10)]
             (9/10) [''click_submit'', ''fill_input'', ''navigate_back''] = Some ''fill_input''"
    by (simp add: spec_argmax_first_def spec_risk_def spec_combined_score_def spec_coverage_def)
  show ?thesis
    using select_action_is_first_argmax
            [of "[''click_submit'', ''fill_input'', ''navigate_back'']"
                "[(''fill_input'', 1/10 :: real), (''navigate_back'', 1/10)]" "9/10" 2
                "[''click_submit'']", OF _ h]
    using h c a by auto
qed



text \<open>
  Outside the range of a risk score the relaxed threshold excludes again: with the single
  offered action \<open>a\<close> stored at 1.5, the selection retries with the threshold 1.0
  until the stack frames run out.
\<close>

lemma select_action_risk_above_one:
  "select_action_by_coverage 1000 [''a''] [] [(''a'', 3/2)] (9/10) = Inl RecursionError"
  by (rule select_never_returns) (simp_all add: spec_risk_def)

section \<open>Risk update in the cycle\<close>










section \<open>Forward progress in the detector\<close>

text \<open>
  Claim C7. The anomaly detector hands \<open>check_forward_progress\<close> a history of exactly
  two observations (the previous and the current one) with the limit 3, so the check
  answers that there is no violation and block 4 never appends the HIGH/INSTABILITY
  report: it returns the anomaly list it was given, for every state, also one whose
  observation has been the same over three cycles with three executed actions. The check
  itself, with the limit 3, reports a violation exactly when the last three observations
  of its history are identical and at least three actions were executed, and none for a
  history of fewer than three observations.
\<close>

theorem forward_progress_never_reported:
  "detect_forward_progress state anoms = Inr anoms
   \<and> check_forward_progress history (earlier @ [ob1, ob2, ob3]) 3
       = Inr \<lparr>violated = (ob2 = ob1 \<and> ob3 = ob1 \<and> 3 \<le> length history)\<rparr>
   \<and> check_forward_progress history [] 3 = Inr \<lparr>violated = False\<rparr>
   \<and> check_forward_progress history [ob1] 3 = Inr \<lparr>violated = False\<rparr>
   \<and> check_forward_progress history [ob1, ob2] 3 = Inr \<lparr>violated = False\<rparr>"
  by (simp add: detect_forward_progress_def check_forward_progress_def py_last_n_def Let_def)

section \<open>Planned action and offered actions\<close>

lemma py_strip_padded: "py_strip ''click_submit '' = ''click_submit''"
  by code_simp

lemma select_padded:
  "select_action_by_coverage 1000 [''click_submit ''] [''navigate_to_page''] [] (9/10)
     = Inr (Some ''click_submit '')"
proof -
  have "select_action_by_coverage (Suc n) [''click_submit ''] [''navigate_to_page''] [] (9/10)
     = Inr (Some ''click_submit '')" for n
    by (simp add: dict_get_def calculate_action_coverage_score_def)
  from this[of 999] show ?thesis by simp
qed

lemma select_returns_offered:
  "select_action_by_coverage n avail history risks thr = Inr (Some k) \<Longrightarrow> k \<in> set avail"
proof (induction n arbitrary: thr)
  case 0
  then show ?case by simp
next
  case (Suc n)
  show ?case
  proof (cases "avail = []")
    case True
    with Suc.prems show ?thesis by simp
  next
    case ne: False
    show ?thesis
    proof (cases "\<exists>a\<in>set avail. spec_risk risks a \<le> thr")
      case True
      from select_first_pass[OF True, of n history] Suc.prems show ?thesis by auto
    next
      case False
      from select_retry(2)[OF ne False, of n history] Suc.prems
      have "select_action_by_coverage n avail history risks 1 = Inr (Some k)" by simp
      then show ?thesis by (rule Suc.IH)
    qed
  qed
qed

lemma plan_next_action_strips_offered:
  assumes "plan_next_action frames state = Inr (Some c, state')"
  shows "\<exists>k\<in>set (available_actions (ui_state state)).
           action_id c = py_strip k \<and> parameters c = []"
proof -
  let ?avail = "available_actions (ui_state state)"
  let ?risks = "update_risks_from_anomalies (risk_scores (knowledge state)) (anomalies state) 10"
  from assms obtain k where
    sel: "select_action_by_coverage frames ?avail (action_history (execution_context state))
            ?risks 0.9 = Inr (Some k)"
    and con: "new_ActionContract k [] = Inr c"
    by (auto simp: plan_next_action_def Let_def split: if_splits sum.splits option.splits)
  have "k \<in> set ?avail" using sel by (rule select_returns_offered)
  moreover have "c = \<lparr>action_id = py_strip k, parameters = []\<rparr>"
    using con
    by (auto simp: new_ActionContract_def validate_action_id_def validate_parameters_def
        split: if_splits sum.splits)
  ultimately show ?thesis by auto
qed

lemma route_padded:
  "route_and_plan 1000 state_padded_action =
     Inr (state_padded_action\<lparr>decision :=
       \<lparr>next_action = Some \<lparr>action_id = ''click_submit'', parameters = []\<rparr>,
        control = CONTINUE,
        reasoning = Some (Reasoning_selecting ''click_submit'' 1 (1/2))\<rparr>\<rparr>)"
proof -
  have r: "router_node state_padded_action =
      state_padded_action\<lparr>decision :=
        \<lparr>next_action = None, control = CONTINUE, reasoning = Some Reasoning_CONTINUE\<rparr>\<rparr>"
    by (simp add: router_node_def make_routing_decision_def should_terminate_def
        should_deep_test_def state_padded_action_def create_basic_state_def dict_get_def)
  have p: "plan_next_action 1000 (state_padded_action\<lparr>decision :=
        \<lparr>next_action = None, control = CONTINUE, reasoning = Some Reasoning_CONTINUE\<rparr>\<rparr>)
     = Inr (Some \<lparr>action_id = ''click_submit'', parameters = []\<rparr>,
            state_padded_action\<lparr>decision :=
        \<lparr>next_action = None, control = CONTINUE, reasoning = Some Reasoning_CONTINUE\<rparr>\<rparr>)"
    by (simp add: plan_next_action_def state_padded_action_def create_basic_state_def Let_def
      update_risks_from_anomalies_def select_padded new_ActionContract_def
      validate_action_id_def validate_parameters_def py_strip_padded)
  show ?thesis
    unfolding route_and_plan_def r Let_def
    by (simp add: determine_next_step_def action_planner_node_def p)
       (simp add: state_padded_action_def create_basic_state_def dict_get_def)
qed

lemma route_stale:
  "route_and_plan 1000 state_stale_decision =
     Inr (state_stale_decision\<lparr>decision :=
       \<lparr>next_action = Some \<lparr>action_id = ''click_submit'', parameters = []\<rparr>,
        control = TERMINATE,
        reasoning = Some (Reasoning_TERMINATE No_available_actions_remaining)\<rparr>\<rparr>)"
  by (simp add: route_and_plan_def router_node_def make_routing_decision_def
      should_terminate_def determine_next_step_def state_stale_decision_def
      create_state_no_actions_def create_basic_state_def)

text \<open>
  Claim C1. The planner wraps the selected identifier in an action contract, whose
  validator strips surrounding whitespace. For the offered list with the single
  identifier \<open>click_submit\<close> followed by a space, the planner returns, and the cycle
  writes into \<open>decision.next_action\<close>, the contract with the identifier
  \<open>click_submit\<close> without the space, which is not an offered action. And in a cycle
  that the router terminates, the planner does not run and \<open>decision.next_action\<close>
  keeps the contract of the previous cycle, here with no action offered at all.
\<close>

theorem planner_strips_selected_action_id:
  "plan_next_action 1000 state_padded_action
     = Inr (Some \<lparr>action_id = ''click_submit'', parameters = []\<rparr>, state_padded_action)
   \<and> route_and_plan 1000 state_padded_action
     = Inr (state_padded_action\<lparr>decision :=
         \<lparr>next_action = Some \<lparr>action_id = ''click_submit'', parameters = []\<rparr>,
          control = CONTINUE,
          reasoning = Some (Reasoning_selecting ''click_submit'' 1 (1/2))\<rparr>\<rparr>)
   \<and> available_actions (ui_state state_padded_action) = [''click_submit '']
   \<and> ''click_submit'' \<notin> set (available_actions (ui_state state_padded_action))
   \<and> route_and_plan 1000 state_stale_decision
     = Inr (state_stale_decision\<lparr>decision :=
         \<lparr>next_action = Some \<lparr>action_id = ''click_submit'', parameters = []\<rparr>,
          control = TERMINATE,
          reasoning = Some (Reasoning_TERMINATE No_available_actions_remaining)\<rparr>\<rparr>)
   \<and> available_actions (ui_state state_stale_decision) = []"
proof -
  have p: "plan_next_action 1000 state_padded_action
     = Inr (Some \<lparr>action_id = ''click_submit'', parameters = []\<rparr>, state_padded_action)"
    by (simp add: plan_next_action_def state_padded_action_def create_basic_state_def Let_def
      update_risks_from_anomalies_def select_padded new_ActionContract_def
      validate_action_id_def validate_parameters_def py_strip_padded)
  have a: "available_actions (ui_state state_padded_action) = [''click_submit '']"
    by (simp add: state_padded_action_def)
  have e: "available_actions (ui_state state_stale_decision) = []"
    by (simp add: state_stale_decision_def create_state_no_actions_def)
  show ?thesis
    using p route_padded route_stale by (simp add: a e)
qed

section \<open>Baseline anomalies and routing\<close>

lemma from_dict_to_dict: "BaselineMetrics_from_dict (BaselineMetrics_to_dict bm) = bm"
  by (simp add: BaselineMetrics_from_dict_def BaselineMetrics_to_dict_def)

lemma check_stability_returns:
  assumes "\<forall>d. baseline = Some d \<longrightarrow> 0 \<le> count (BaselineMetrics_from_dict d)"
  shows "\<exists>v ub. check_stability_against_baseline name x baseline sigma
                  = Inr (\<lparr>violated = v\<rparr>, Some ub) \<and> 0 \<le> count ub"
proof (cases baseline)
  case None
  have "check_stability_against_baseline name x None sigma
          = Inr (\<lparr>violated = False\<rparr>, Some \<lparr>mean = x, std_dev = 0, count = 1\<rparr>)"
    by (simp add: check_stability_against_baseline_def)
  then show ?thesis unfolding None by force
next
  case (Some d)
  let ?bm = "BaselineMetrics_from_dict d"
  have c: "0 \<le> count ?bm" using assms Some by simp
  have "\<exists>ub. with_update v ?bm x = Inr (\<lparr>violated = v\<rparr>, Some ub) \<and> 0 \<le> count ub" for v
    using with_update_returns[OF c, of v x] c by auto
  then show ?thesis
    unfolding Some check_stability_against_baseline_def Let_def option.case
    by (metis (full_types))
qed

lemma set_update_subset: "set (AList.update k v al) \<subseteq> insert (k, v) (set al)"
  by (induction al) auto

lemma detect_baseline_stability_appends:
  assumes "detect_baseline_stability metrics la bls anoms = Inr (bls', anoms')"
  shows "\<exists>new. anoms' = anoms @ new
           \<and> (\<forall>a\<in>set new. severity a = MEDIUM \<and> category a = REGRESSION
                             \<and> anomaly_action_id a = la)"
  using assms
proof (induction metrics arbitrary: bls anoms)
  case Nil
  then show ?case by simp
next
  case (Cons m metrics)
  obtain metric_name metric_value where m: "m = (metric_name, metric_value)" by (cases m)
  from Cons.prems obtain stability_check updated_baseline where
    chk: "check_stability_against_baseline metric_name metric_value
            (map_of bls metric_name) 2.0 = Inr (stability_check, updated_baseline)"
    unfolding m by (auto split: sum.splits)
  let ?bls = "case updated_baseline of None \<Rightarrow> bls
               | Some ub \<Rightarrow> AList.update metric_name (BaselineMetrics_to_dict ub) bls"
  let ?anoms = "if violated stability_check
                then anoms @ [\<lparr>severity = MEDIUM, category = REGRESSION,
                                anomaly_action_id = la\<rparr>]
                else anoms"
  have rest: "detect_baseline_stability metrics la ?bls ?anoms = Inr (bls', anoms')"
    using Cons.prems chk unfolding m by (simp add: Let_def)
  from Cons.IH[OF rest] obtain new where
    new: "anoms' = ?anoms @ new"
      "\<forall>a\<in>set new. severity a = MEDIUM \<and> category a = REGRESSION \<and> anomaly_action_id a = la"
    by blast
  show ?case
  proof (cases "violated stability_check")
    case True
    let ?r = "\<lparr>severity = MEDIUM, category = REGRESSION, anomaly_action_id = la\<rparr>"
    have "anoms' = anoms @ (?r # new)" using new(1) True by simp
    moreover have "\<forall>a\<in>set (?r # new). severity a = MEDIUM \<and> category a = REGRESSION
                    \<and> anomaly_action_id a = la"
      using new(2) by simp
    ultimately show ?thesis by blast
  next
    case False
    then show ?thesis using new by auto
  qed
qed

lemma detect_baseline_stability_returns:
  assumes "\<forall>d\<in>snd ` set bls. 0 \<le> count (BaselineMetrics_from_dict d)"
  shows "\<exists>bls' anoms'. detect_baseline_stability metrics la bls anoms = Inr (bls', anoms')"
  using assms
proof (induction metrics arbitrary: bls anoms)
  case Nil
  then show ?case by simp
next
  case (Cons m metrics)
  obtain metric_name metric_value where m: "m = (metric_name, metric_value)" by (cases m)
  have "\<forall>d. map_of bls metric_name = Some d \<longrightarrow> 0 \<le> count (BaselineMetrics_from_dict d)"
    using Cons.prems by (metis map_of_SomeD snd_conv image_eqI)
  from check_stability_returns[OF this, of metric_name metric_value "2.0"]
  obtain v ub where
    chk: "check_stability_against_baseline metric_name metric_value
            (map_of bls metric_name) 2.0 = Inr (\<lparr>violated = v\<rparr>, Some ub)"
    and ub: "0 \<le> count ub" by blast
  let ?bls = "AList.update metric_name (BaselineMetrics_to_dict ub) bls"
  have inv: "\<forall>d\<in>snd ` set ?bls. 0 \<le> count (BaselineMetrics_from_dict d)"
  proof
    fix d assume "d \<in> snd ` set ?bls"
    then obtain k where "(k, d) \<in> set ?bls" by auto
    then have "(k, d) = (metric_name, BaselineMetrics_to_dict ub) \<or> (k, d) \<in> set bls"
      using set_update_subset[of metric_name "BaselineMetrics_to_dict ub" bls] by auto
    then show "0 \<le> count (BaselineMetrics_from_dict d)"
    proof
      assume "(k, d) = (metric_name, BaselineMetrics_to_dict ub)"
      then show ?thesis using ub by (simp add: from_dict_to_dict)
    next
      assume "(k, d) \<in> set bls"
      then have "d \<in> snd ` set bls" by force
      then show ?thesis using Cons.prems by blast
    qed
  qed
  show ?case
    unfolding m using Cons.IH[OF inv] chk by (simp add: Let_def)
qed


lemma filter_HIGH_drop_le:
  "length (filter P (drop n xs)) \<le> length (filter P xs)"
proof -
  have "filter P xs = filter P (take n xs) @ filter P (drop n xs)"
    by (metis append_take_drop_id filter_append)
  then show ?thesis by simp
qed

lemma py_last_n_filter_le:
  "length (filter P (py_last_n n xs)) \<le> length (filter P xs)"
  by (simp add: py_last_n_def filter_HIGH_drop_le)

lemma list_all_filter_length:
  "list_all P xs \<Longrightarrow> length (filter P xs) = length xs"
  by (induction xs) auto

lemma terminate_needs_three_HIGH:
  assumes "should_terminate state = (True, r)"
    and "r \<noteq> No_available_actions_remaining"
    and "r \<noteq> Maximum_steps_reached (max_steps (execution_context state))"
  shows "3 \<le> length (filter (\<lambda>a. severity a = HIGH) (anomalies state))"
proof -
  let ?H = "\<lambda>a. severity a = HIGH"
  let ?xs = "anomalies state"
  have le5: "length (filter ?H (py_last_n 5 ?xs)) \<le> length (filter ?H ?xs)"
    by (rule py_last_n_filter_le)
  have le3: "length (filter ?H (py_last_n 3 ?xs)) \<le> length (filter ?H ?xs)"
    by (rule py_last_n_filter_le)
  have all3: "3 \<le> length (filter ?H ?xs)"
    if "length (py_last_n 3 ?xs) = 3" "list_all ?H (py_last_n 3 ?xs)"
    using list_all_filter_length[OF that(2)] that(1) le3 by simp
  have ratio: "3 \<le> length (filter ?H ?xs)"
    if "length ?xs > 20" "real (length (filter ?H ?xs)) / real (length ?xs) > 0.5"
  proof -
    have "length ?xs > 0" using that(1) by linarith
    then have "real (length ?xs) > 0" by simp
    then have "real (length (filter ?H ?xs)) > 0.5 * real (length ?xs)"
      using that(2) by (simp add: field_simps)
    then show ?thesis using that(1) by linarith
  qed
  show ?thesis
    using assms le5 all3 ratio
    by (auto simp: should_terminate_def Let_def split: if_splits)
qed

lemma last_in_py_last_n:
  "xs \<noteq> [] \<Longrightarrow> 0 < n \<Longrightarrow> last xs \<in> set (py_last_n n xs)"
proof -
  assume ne: "xs \<noteq> []" and n: "0 < n"
  then have "0 < length xs" by simp
  with n have "length xs - n < length xs" by linarith
  then have "drop (length xs - n) xs \<noteq> []" by simp
  then have "last (drop (length xs - n) xs) \<in> set (drop (length xs - n) xs)"
    by (rule last_in_set)
  moreover have "last (drop (length xs - n) xs) = last xs"
    using ne n by (simp add: last_drop)
  ultimately show ?thesis using n by (simp add: py_last_n_def)
qed

lemma deep_test_on_medium_last:
  assumes "anomalies state = pre @ new" and "new \<noteq> []"
    and "\<forall>a\<in>set new. severity a = MEDIUM"
  shows "should_deep_test state = (True, Medium_severity_anomaly_detected)"
proof -
  let ?xs = "anomalies state"
  have ne: "?xs \<noteq> []" using assms(1,2) by simp
  have "last ?xs = last new" using assms(1,2) by simp
  then have med: "severity (last ?xs) = MEDIUM" using assms(2,3) by simp
  have "last ?xs \<in> set (if length ?xs \<ge> 3 then py_last_n 3 ?xs else ?xs)"
    using ne last_in_py_last_n[OF ne, of 3] by simp
  then have "list_ex (\<lambda>a. severity a = MEDIUM)
               (if length ?xs \<ge> 3 then py_last_n 3 ?xs else ?xs)"
    using med unfolding list_ex_iff by blast
  then show ?thesis by (simp add: should_deep_test_def Let_def)
qed


text \<open>
  Claim C10, as amended. Whenever block 6 of the anomaly detector returns, the reports it
  has appended all have severity MEDIUM, category REGRESSION and the last executed action
  (if any) as action. For every state whose anomaly log ends with these reports: if there
  is at least one, \<open>should_deep_test\<close> answers true (medium severity anomaly); and
  whenever \<open>should_terminate\<close> answers true for a reason other than the empty action
  list or the step limit, the log before these reports already holds at least three
  HIGH reports, so a baseline report is never one of the HIGH reports that the
  termination rules count (it does count in the total that the anomaly-rate rule compares
  with 20). Block 6 returns whenever no stored baseline has a negative count.
\<close>

theorem baseline_anomalies_MEDIUM_REGRESSION:
  "(\<forall>bls' anoms'.
       detect_baseline_stability metrics la bls anoms = Inr (bls', anoms') \<longrightarrow>
       (\<exists>new. anoms' = anoms @ new
          \<and> (\<forall>a\<in>set new. severity a = MEDIUM \<and> category a = REGRESSION
                            \<and> anomaly_action_id a = la)
          \<and> (\<forall>(state :: 'v AgentState) pre.
                anomalies state = pre @ new \<longrightarrow>
                  (new \<noteq> [] \<longrightarrow>
                     should_deep_test state = (True, Medium_severity_anomaly_detected))
                \<and> (\<forall>r. should_terminate state = (True, r) \<longrightarrow>
                       r = No_available_actions_remaining
                     \<or> r = Maximum_steps_reached (max_steps (execution_context state))
                     \<or> 3 \<le> length (filter (\<lambda>a. severity a = HIGH) pre)))))
   \<and> ((\<forall>d\<in>snd ` set bls. 0 \<le> count (BaselineMetrics_from_dict d)) \<longrightarrow>
        (\<exists>bls' anoms'. detect_baseline_stability metrics la bls anoms = Inr (bls', anoms')))"
proof -
  have part1: "\<exists>new. anoms' = anoms @ new
          \<and> (\<forall>a\<in>set new. severity a = MEDIUM \<and> category a = REGRESSION
                            \<and> anomaly_action_id a = la)
          \<and> (\<forall>(state :: 'v AgentState) pre.
                anomalies state = pre @ new \<longrightarrow>
                  (new \<noteq> [] \<longrightarrow>
                     should_deep_test state = (True, Medium_severity_anomaly_detected))
                \<and> (\<forall>r. should_terminate state = (True, r) \<longrightarrow>
                       r = No_available_actions_remaining
                     \<or> r = Maximum_steps_reached (max_steps (execution_context state))
                     \<or> 3 \<le> length (filter (\<lambda>a. severity a = HIGH) pre)))"
    if ret: "detect_baseline_stability metrics la bls anoms = Inr (bls', anoms')"
    for bls' anoms'
  proof -
    from detect_baseline_stability_appends[OF ret] obtain new where
      app: "anoms' = anoms @ new" and
      new: "\<forall>a\<in>set new. severity a = MEDIUM \<and> category a = REGRESSION
              \<and> anomaly_action_id a = la" by blast
    have router: "(new \<noteq> [] \<longrightarrow>
                     should_deep_test state = (True, Medium_severity_anomaly_detected))
                \<and> (\<forall>r. should_terminate state = (True, r) \<longrightarrow>
                       r = No_available_actions_remaining
                     \<or> r = Maximum_steps_reached (max_steps (execution_context state))
                     \<or> 3 \<le> length (filter (\<lambda>a. severity a = HIGH) pre))"
      if log: "anomalies state = pre @ new" for state :: "'v AgentState" and pre
    proof -
      have med: "\<forall>a\<in>set new. severity a = MEDIUM" using new by blast
      have deep: "should_deep_test state = (True, Medium_severity_anomaly_detected)"
        if "new \<noteq> []"
        using log that med by (rule deep_test_on_medium_last)
      have "filter (\<lambda>a. severity a = HIGH) new = []"
        using med by (simp add: filter_empty_conv)
      then have high: "filter (\<lambda>a. severity a = HIGH) (anomalies state)
                     = filter (\<lambda>a. severity a = HIGH) pre"
        by (simp add: log)
      have halts: "r = No_available_actions_remaining
                     \<or> r = Maximum_steps_reached (max_steps (execution_context state))
                     \<or> 3 \<le> length (filter (\<lambda>a. severity a = HIGH) pre)"
        if "should_terminate state = (True, r)" for r
        using terminate_needs_three_HIGH[OF that] unfolding high by blast
      show ?thesis using deep halts by blast
    qed
    show ?thesis using app new router by blast
  qed
  have part2: "\<exists>bls' anoms'. detect_baseline_stability metrics la bls anoms = Inr (bls', anoms')"
    if "\<forall>d\<in>snd ` set bls. 0 \<le> count (BaselineMetrics_from_dict d)"
    using that by (rule detect_baseline_stability_returns)
  show ?thesis using part1 part2 by blast
qed

lemma detect_fixture:
  "\<exists>bls'. detect_baseline_stability [(''response_time_ms'', 500)] (Some ''navigate_to_page'')
            (baselines (knowledge create_state_with_baselines)) []
          = Inr (bls', [\<lparr>severity = MEDIUM, category = REGRESSION,
                          anomaly_action_id = Some ''navigate_to_page''\<rparr>])"
  by (simp add: create_state_with_baselines_def create_basic_state_def
      check_stability_against_baseline_def BaselineMetrics_from_dict_def with_update_def
      BaselineMetrics_update_def Let_def)

theorem baseline_anomalies_MEDIUM_REGRESSION_witness:
  "(\<exists>bls'. detect_baseline_stability [(''response_time_ms'', 500)] (Some ''navigate_to_page'')
            (baselines (knowledge create_state_with_baselines)) []
          = Inr (bls', [\<lparr>severity = MEDIUM, category = REGRESSION,
                          anomaly_action_id = Some ''navigate_to_page''\<rparr>]))
   \<and> should_deep_test (create_state_with_baselines\<lparr>anomalies :=
         [\<lparr>severity = MEDIUM, category = REGRESSION,
           anomaly_action_id = Some ''navigate_to_page''\<rparr>]\<rparr>)
       = (True, Medium_severity_anomaly_detected)
   \<and> should_terminate (create_state_with_baselines\<lparr>anomalies :=
         [\<lparr>severity = MEDIUM, category = REGRESSION,
           anomaly_action_id = Some ''navigate_to_page''\<rparr>]\<rparr>)
       = (False, No_terminate_reason)"
proof -
  let ?r = "\<lparr>severity = MEDIUM, category = REGRESSION,
             anomaly_action_id = Some ''navigate_to_page''\<rparr>"
  let ?st = "create_state_with_baselines\<lparr>anomalies := [?r]\<rparr>"
  from detect_fixture obtain bls' where
    ret: "detect_baseline_stability [(''response_time_ms'', 500)] (Some ''navigate_to_page'')
            (baselines (knowledge create_state_with_baselines)) [] = Inr (bls', [?r])"
    by blast
  from baseline_anomalies_MEDIUM_REGRESSION
         [of "[(''response_time_ms'', 500)]" "Some ''navigate_to_page''"
             "baselines (knowledge create_state_with_baselines)" "[]"] ret
  obtain new where new: "[?r] = [] @ new"
    and router: "\<forall>(state :: pyval AgentState) pre.
                anomalies state = pre @ new \<longrightarrow>
                  (new \<noteq> [] \<longrightarrow>
                     should_deep_test state = (True, Medium_severity_anomaly_detected))
                \<and> (\<forall>r. should_terminate state = (True, r) \<longrightarrow>
                       r = No_available_actions_remaining
                     \<or> r = Maximum_steps_reached (max_steps (execution_context state))
                     \<or> 3 \<le> length (filter (\<lambda>a. severity a = HIGH) pre))"
    by blast
  have n: "new = [?r]" using new by simp
  have "anomalies ?st = [] @ new" by (simp add: n)
  with router have deep: "should_deep_test ?st = (True, Medium_severity_anomaly_detected)"
    using n by blast
  have halts: "should_terminate ?st = (False, No_terminate_reason)"
    by (simp add: should_terminate_def create_state_with_baselines_def create_basic_state_def)
  show ?thesis using detect_fixture deep halts by blast
qed

lemma many_before:
  "should_terminate state_many_anomalies = (False, No_terminate_reason)"
  by (simp add: should_terminate_def state_many_anomalies_def create_state_with_baselines_def
      create_basic_state_def py_last_n_def Let_def list_all_iff)

lemma many_after:
  "should_terminate (state_many_anomalies\<lparr>anomalies := anomalies state_many_anomalies
       @ [\<lparr>severity = MEDIUM, category = REGRESSION,
            anomaly_action_id = Some ''navigate_to_page''\<rparr>]\<rparr>)
     = (True, Excessive_anomaly_rate)"
  by (simp add: should_terminate_def state_many_anomalies_def create_state_with_baselines_def
      create_basic_state_def py_last_n_def Let_def)

text \<open>
  Counterexample to claim C10 as stated: with 11 HIGH reports among the 20 logged, no
  termination rule fires; the baseline check on a response time of 500 against the
  baseline \<open>{mean: 200, std_dev: 50, count: 10}\<close> appends one MEDIUM/REGRESSION report,
  the log then holds more than 20 reports of which more than half are HIGH, and the
  router terminates for an excessive anomaly rate.
\<close>

theorem baseline_report_tips_anomaly_rate_counterexample:
  "map_sum id snd
     (detect_baseline_stability [(''response_time_ms'', 500)] (last_action state_many_anomalies)
        (baselines (knowledge state_many_anomalies)) [])
     = Inr [\<lparr>severity = MEDIUM, category = REGRESSION,
              anomaly_action_id = Some ''navigate_to_page''\<rparr>]
   \<and> should_terminate state_many_anomalies = (False, No_terminate_reason)
   \<and> should_terminate (state_many_anomalies\<lparr>anomalies := anomalies state_many_anomalies
         @ [\<lparr>severity = MEDIUM, category = REGRESSION,
              anomaly_action_id = Some ''navigate_to_page''\<rparr>]\<rparr>)
       = (True, Excessive_anomaly_rate)"
proof -
  have d: "map_sum id snd
     (detect_baseline_stability [(''response_time_ms'', 500)] (last_action state_many_anomalies)
        (baselines (knowledge state_many_anomalies)) [])
     = Inr [\<lparr>severity = MEDIUM, category = REGRESSION,
              anomaly_action_id = Some ''navigate_to_page''\<rparr>]"
    by (simp add: state_many_anomalies_def create_state_with_baselines_def
      create_basic_state_def last_action_def
      check_stability_against_baseline_def BaselineMetrics_from_dict_def with_update_def
      BaselineMetrics_update_def Let_def)
  show ?thesis using d many_before many_after by simp
qed

end
